theory Spec2Isabelle
  imports Complex_Main "HOL-Library.Word"
begin

unbundle bit_operations_syntax

section \<open>Bytes, Python errors and control characters\<close>

text \<open>
  A Python \<^verbatim>\<open>bytes\<close> or \<^verbatim>\<open>bytearray\<close> object is a list of 8-bit words. Python's
  integers are unbounded and are modelled by \<^typ>\<open>int\<close>. Every exception the embedded code can
  raise is a constructor of \<open>py_error\<close>; a function that can raise returns
  \<open>py_error + 'a\<close>, with \<open>Inl\<close> for the exception.
\<close>

type_synonym byte = "8 word"
type_synonym bytes = "byte list"

datatype py_error = ValueError | PermissionError | OverflowError

text \<open>
  The constructor \<^verbatim>\<open>bytes(list_of_ints)\<close> raises \<^verbatim>\<open>ValueError\<close> as soon as one element
  is outside \<^verbatim>\<open>range(256)\<close>.
\<close>

definition py_bytes :: "int list \<Rightarrow> py_error + bytes" where
  "py_bytes xs =
     (if list_all (\<lambda>x. 0 \<le> x \<and> x < 256) xs then Inr (map word_of_int xs)
      else Inl ValueError)"

text \<open>The enumeration \<^verbatim>\<open>ControlChars\<close>; \<open>control_value\<close> is the member's \<^verbatim>\<open>.value\<close>.\<close>

datatype ControlChars = ACK | NAK | SOH | EOT | CAN | C | START_TRANSMISSION

fun control_value :: "ControlChars \<Rightarrow> bytes" where
  "control_value ACK = [0x06]"
| "control_value NAK = [0x15]"
| "control_value SOH = [0x01]"
| "control_value EOT = [0x04]"
| "control_value CAN = [0x18]"
| "control_value C = [0x43]"
| "control_value START_TRANSMISSION = [0x31]"

section \<open>Packet\<close>

text \<open>
  \<^verbatim>\<open>Packet.int_to_bytes(value, length)\<close> is
  \<^verbatim>\<open>bytes([(value >> i*8) & 0xff for i in reversed(range(length))])\<close>.
  Python's \<^verbatim>\<open>>>\<close> on integers is the arithmetic shift (\<open>drop_bit\<close> on \<^typ>\<open>int\<close>),
  \<^verbatim>\<open>&\<close> is the two's complement conjunction, and \<^verbatim>\<open>range\<close> of a negative number is
  empty.
\<close>

definition int_to_bytes :: "int \<Rightarrow> int \<Rightarrow> py_error + bytes" where
  "int_to_bytes v len =
     py_bytes (map (\<lambda>i. drop_bit (i * 8) v AND 0xff) (rev [0..<nat len]))"

text \<open>
  The value a byte sequence denotes when read as a big-endian unsigned number: the
  reference against which \<open>int_to_bytes\<close> is compared.
\<close>

definition big_endian_value :: "bytes \<Rightarrow> nat" where
  "big_endian_value bs = foldl (\<lambda>acc b. acc * 256 + unat b) 0 bs"

text \<open>
  The constructor argument \<^verbatim>\<open>payload\<close>: a \<^verbatim>\<open>bytearray\<close>, a list of integers (the two
  annotated types) or a \<^verbatim>\<open>bytes\<close> object (what the transmitter passes). The call
  \<^verbatim>\<open>bytearray(payload)\<close> copies a byte sequence and converts a list of integers as
  \<^verbatim>\<open>bytes\<close> does.
\<close>

datatype payload_arg = ByteArray bytes | Bytes bytes | IntList "int list"

definition bytearray :: "payload_arg \<Rightarrow> py_error + bytes" where
  "bytearray a = (case a of ByteArray bs \<Rightarrow> Inr bs | Bytes bs \<Rightarrow> Inr bs | IntList xs \<Rightarrow> py_bytes xs)"

text \<open>
  The three private attributes of a \<^verbatim>\<open>Packet\<close>: \<^verbatim>\<open>_block_number\<close>,
  \<^verbatim>\<open>_start_of_header\<close> and \<^verbatim>\<open>_payload\<close>.
\<close>

record Packet =
  pkt_block_number :: bytes
  pkt_start_of_header :: bytes
  pkt_payload :: bytes

definition Packet_init :: "int \<Rightarrow> payload_arg \<Rightarrow> py_error + Packet" where
  "Packet_init block_number payload =
     (case int_to_bytes block_number 2 of
        Inl e \<Rightarrow> Inl e
      | Inr bn \<Rightarrow>
          (case (case payload of ByteArray bs \<Rightarrow> Inr bs | _ \<Rightarrow> bytearray payload) of
             Inl e \<Rightarrow> Inl e
           | Inr pl \<Rightarrow>
               Inr \<lparr>pkt_block_number = bn, pkt_start_of_header = control_value SOH,
                    pkt_payload = pl\<rparr>))"

text \<open>The property \<^verbatim>\<open>block_number\<close>: its getter raises, its setter stores the encoding.\<close>

definition block_number_getter :: "Packet \<Rightarrow> py_error + bytes" where
  "block_number_getter pkt = Inl PermissionError"

definition block_number_setter :: "Packet \<Rightarrow> int \<Rightarrow> py_error + Packet" where
  "block_number_setter pkt v =
     (case int_to_bytes v 2 of
        Inl e \<Rightarrow> Inl e
      | Inr bn \<Rightarrow> Inr (pkt\<lparr>pkt_block_number := bn\<rparr>))"

definition payload_length :: "Packet \<Rightarrow> py_error + bytes" where
  "payload_length pkt = int_to_bytes (int (length (pkt_payload pkt))) 2"

definition check_sum :: "Packet \<Rightarrow> py_error + bytes" where
  "check_sum pkt = int_to_bytes (sum_list (map uint (pkt_payload pkt)) AND 0xff) 1"

text \<open>\<^verbatim>\<open>as_bytearray\<close> joins the five fields with the empty separator.\<close>

definition as_bytearray :: "Packet \<Rightarrow> py_error + bytes" where
  "as_bytearray pkt =
     (case payload_length pkt of
        Inl e \<Rightarrow> Inl e
      | Inr len \<Rightarrow>
          (case check_sum pkt of
             Inl e \<Rightarrow> Inl e
           | Inr cs \<Rightarrow>
               Inr (concat [pkt_start_of_header pkt, pkt_block_number pkt, len,
                            pkt_payload pkt, cs])))"

text \<open>Construction followed by serialisation: \<^verbatim>\<open>Packet(b, p).as_bytearray()\<close>.\<close>

definition serialize :: "int \<Rightarrow> payload_arg \<Rightarrow> py_error + bytes" where
  "serialize block_number payload =
     (case Packet_init block_number payload of
        Inl e \<Rightarrow> Inl e
      | Inr pkt \<Rightarrow> as_bytearray pkt)"

text \<open>
  The receiver's reading of a frame, written from the wire layout of the specification
  (the repository has no receiver): start-of-header, two bytes of block id, two bytes of
  payload length, that many payload bytes and one checksum byte. It is the reference for
  the round trip of \<open>serialize\<close>.
\<close>

definition deserialize :: "bytes \<Rightarrow> (int \<times> bytes) option" where
  "deserialize frame =
     (case frame of
        soh # b_hi # b_lo # l_hi # l_lo # rest \<Rightarrow>
          (let n = big_endian_value [l_hi, l_lo];
               pl = take n rest
           in if soh = 0x01 \<and> length rest = n + 1 \<and>
                 uint (last rest) = sum_list (map uint pl) mod 256
              then Some (int (big_endian_value [b_hi, b_lo]), pl)
              else None)
      | _ \<Rightarrow> None)"

section \<open>The serial port\<close>

text \<open>
  Modelled from the spec: the byte-stream transport (an object of the serial library, which
  is not part of the repository) with its three operations \<^verbatim>\<open>write\<close>, \<^verbatim>\<open>read\<close> and
  \<^verbatim>\<open>read_until\<close>. The state of a port is the list of the arguments of the
  \<^verbatim>\<open>write\<close> calls so far, oldest first, and the bytes the peer sends that have not been
  read yet. No timeout is configured, so a read with no byte left never returns: that is
  the outcome \<open>Blocks\<close>. An operation yields its outcome and the port as it is then.
\<close>

record serial_port =
  written :: "bytes list"
  incoming :: bytes

datatype 'a outcome = Returns 'a | Raises py_error | Blocks

text \<open>
  Two statements in sequence: the second runs in the state the first leaves, unless the
  first raises or blocks, which ends the run.
\<close>

definition and_then ::
  "('s \<Rightarrow> unit outcome \<times> 's) \<Rightarrow> ('s \<Rightarrow> unit outcome \<times> 's) \<Rightarrow> 's \<Rightarrow> unit outcome \<times> 's" where
  "and_then op1 op2 s =
     (case op1 s of
        (Returns _, s1) \<Rightarrow> op2 s1
      | (Raises e, s1) \<Rightarrow> (Raises e, s1)
      | (Blocks, s1) \<Rightarrow> (Blocks, s1))"

definition sp_write :: "bytes \<Rightarrow> serial_port \<Rightarrow> serial_port" where
  "sp_write bs port = port\<lparr>written := written port @ [bs]\<rparr>"

definition sp_read :: "serial_port \<Rightarrow> bytes outcome \<times> serial_port" where
  "sp_read port =
     (case incoming port of
        [] \<Rightarrow> (Blocks, port)
      | b # rest \<Rightarrow> (Returns [b], port\<lparr>incoming := rest\<rparr>))"

text \<open>
  \<^verbatim>\<open>read_until(expected)\<close> collects bytes until the collected line ends with
  \<open>expected\<close>, and returns the line.
\<close>

fun read_until_scan :: "bytes \<Rightarrow> bytes \<Rightarrow> bytes \<Rightarrow> (bytes \<times> bytes) option" where
  "read_until_scan expected line [] = None"
| "read_until_scan expected line (b # rest) =
     (let line' = line @ [b]
      in if drop (length line' - length expected) line' = expected then Some (line', rest)
         else read_until_scan expected line' rest)"

definition sp_read_until :: "bytes \<Rightarrow> serial_port \<Rightarrow> bytes outcome \<times> serial_port" where
  "sp_read_until expected port =
     (case read_until_scan expected [] (incoming port) of
        None \<Rightarrow> (Blocks, port\<lparr>incoming := []\<rparr>)
      | Some (line, rest) \<Rightarrow> (Returns line, port\<lparr>incoming := rest\<rparr>))"

section \<open>BitStreamTransferProtocol\<close>

text \<open>The attributes \<^verbatim>\<open>_sp\<close> and \<^verbatim>\<open>_crc_mode\<close> (\<open>None\<close> until the handshake).\<close>

record BitStreamTransferProtocol =
  proto_sp :: serial_port
  proto_crc_mode :: "bytes option"

definition Protocol_init :: "serial_port \<Rightarrow> BitStreamTransferProtocol" where
  "Protocol_init port = \<lparr>proto_sp = port, proto_crc_mode = None\<rparr>"

text \<open>
  The argument of \<^verbatim>\<open>_make_bytes\<close>, by the six alternatives of its type annotation. On
  these the final \<^verbatim>\<open>raise ValueError\<close> of the source is not reached; \<^verbatim>\<open>bytes(data)\<close>
  on a list of integers can still raise.
\<close>

datatype write_arg =
    WByteArray bytes
  | WIntList "int list"
  | WBytesList "bytes list"
  | WControlList "ControlChars list"
  | WControl ControlChars
  | WInt int

fun make_bytes_rank :: "write_arg \<Rightarrow> nat" where
  "make_bytes_rank (WControl c) = 2"
| "make_bytes_rank (WInt i) = 1"
| "make_bytes_rank (WControlList cs) = 1"
| "make_bytes_rank a = 0"

function make_bytes :: "write_arg \<Rightarrow> py_error + bytes" where
  "make_bytes (WByteArray bs) = Inr bs"
| "make_bytes (WIntList xs) = (if length xs = 0 then Inr [] else py_bytes xs)"
| "make_bytes (WBytesList bss) = (if length bss = 0 then Inr [] else Inr (concat bss))"
| "make_bytes (WControlList cs) =
     (if length cs = 0 then Inr [] else make_bytes (WBytesList (map control_value cs)))"
| "make_bytes (WControl c) = make_bytes (WControlList [c])"
| "make_bytes (WInt i) = make_bytes (WIntList [i])"
  by pat_completeness auto
termination
  by (relation "measure make_bytes_rank") auto

definition proto_write ::
  "write_arg \<Rightarrow> BitStreamTransferProtocol \<Rightarrow> unit outcome \<times> BitStreamTransferProtocol" where
  "proto_write data p =
     (case make_bytes data of
        Inl e \<Rightarrow> (Raises e, p)
      | Inr bs \<Rightarrow> (Returns (), p\<lparr>proto_sp := sp_write bs (proto_sp p)\<rparr>))"

text \<open>
  \<^verbatim>\<open>_wait_for_chars\<close>: the loop \<^verbatim>\<open>while True: ch = self._sp.read(); if ch in chars: return ch\<close>.
  Every iteration consumes one incoming byte, so the recursion ends; when the bytes run out
  the read blocks for ever.
\<close>

function wait_for_chars :: "bytes list \<Rightarrow> serial_port \<Rightarrow> bytes outcome \<times> serial_port" where
  "wait_for_chars chars port =
     (case sp_read port of
        (Returns ch, port') \<Rightarrow>
          if ch \<in> set chars then (Returns ch, port') else wait_for_chars chars port'
      | (Raises e, port') \<Rightarrow> (Raises e, port')
      | (Blocks, port') \<Rightarrow> (Blocks, port'))"
  by pat_completeness auto
termination
  by (relation "measure (\<lambda>(chars, port). length (incoming port))")
     (auto simp: sp_read_def split: list.splits)

declare wait_for_chars.simps [simp del]

text \<open>Lifting an operation of the port to the protocol object that owns it.\<close>

definition on_port ::
  "(serial_port \<Rightarrow> 'a outcome \<times> serial_port) \<Rightarrow>
     BitStreamTransferProtocol \<Rightarrow> 'a outcome \<times> BitStreamTransferProtocol" where
  "on_port f p = (case f (proto_sp p) of (r, port') \<Rightarrow> (r, p\<lparr>proto_sp := port'\<rparr>))"

definition check_crc_mode ::
  "BitStreamTransferProtocol \<Rightarrow> bytes outcome \<times> BitStreamTransferProtocol" where
  "check_crc_mode p = on_port (wait_for_chars [control_value C, control_value NAK]) p"

definition wait_for_ack ::
  "BitStreamTransferProtocol \<Rightarrow> bool outcome \<times> BitStreamTransferProtocol" where
  "wait_for_ack p =
     (case on_port (wait_for_chars [control_value ACK, control_value NAK]) p of
        (Returns ch, p') \<Rightarrow> (Returns (ch = control_value ACK), p')
      | (Raises e, p') \<Rightarrow> (Raises e, p')
      | (Blocks, p') \<Rightarrow> (Blocks, p'))"

definition start_transmission ::
  "BitStreamTransferProtocol \<Rightarrow> unit outcome \<times> BitStreamTransferProtocol" where
  "start_transmission p =
     (case proto_write (WControl START_TRANSMISSION) p of
        (Returns _, p1) \<Rightarrow>
          (case check_crc_mode p1 of
             (Returns ch, p2) \<Rightarrow> (Returns (), p2\<lparr>proto_crc_mode := Some ch\<rparr>)
           | (Raises e, p2) \<Rightarrow> (Raises e, p2)
           | (Blocks, p2) \<Rightarrow> (Blocks, p2))
      | (Raises e, p1) \<Rightarrow> (Raises e, p1)
      | (Blocks, p1) \<Rightarrow> (Blocks, p1))"

definition stop_transmission ::
  "BitStreamTransferProtocol \<Rightarrow> unit outcome \<times> BitStreamTransferProtocol" where
  "stop_transmission p =
     (case proto_write (WControl EOT) p of
        (Returns _, p1) \<Rightarrow>
          (case on_port (sp_read_until (control_value ACK)) p1 of
             (Returns _, p2) \<Rightarrow> (Returns (), p2)
           | (Raises e, p2) \<Rightarrow> (Raises e, p2)
           | (Blocks, p2) \<Rightarrow> (Blocks, p2))
      | (Raises e, p1) \<Rightarrow> (Raises e, p1)
      | (Blocks, p1) \<Rightarrow> (Blocks, p1))"

definition send_packet ::
  "Packet \<Rightarrow> BitStreamTransferProtocol \<Rightarrow> bool outcome \<times> BitStreamTransferProtocol" where
  "send_packet packet p =
     (case as_bytearray packet of
        Inl e \<Rightarrow> (Raises e, p)
      | Inr frame \<Rightarrow> wait_for_ack (p\<lparr>proto_sp := sp_write frame (proto_sp p)\<rparr>))"

section \<open>Division of the file length by the packet size\<close>

text \<open>
  \<^verbatim>\<open>_calc_num_required_packets\<close> divides with \<^verbatim>\<open>/\<close>, Python's true division, whose
  result is a float: the double-precision number nearest to the exact quotient, ties going
  to the even significand, and \<^verbatim>\<open>OverflowError\<close> when that number is beyond the largest
  double. The divisor \<^verbatim>\<open>Packet.MAX_SIZE\<close> is \<open>256 = 2 ^ 8\<close>, so the quotient is the
  dividend, rounded to 53 significant bits, over 256. A float is modelled by the rational
  number it denotes; \<^verbatim>\<open>math.floor\<close> is exact.
\<close>

definition MAX_SIZE :: int where
  "MAX_SIZE = 256"

fun bit_length :: "nat \<Rightarrow> nat" where
  "bit_length n = (if n = 0 then 0 else Suc (bit_length (n div 2)))"

declare bit_length.simps [simp del]

definition round_to_53_bits :: "nat \<Rightarrow> nat" where
  "round_to_53_bits n =
     (let s = bit_length n - 53
      in if s = 0 then n
         else let q = n div 2 ^ s; r = n mod 2 ^ s
              in (if 2 ^ s < 2 * r \<or> (2 * r = 2 ^ s \<and> odd q) then q + 1 else q) * 2 ^ s)"

definition truediv_MAX_SIZE :: "int \<Rightarrow> py_error + rat" where
  "truediv_MAX_SIZE a =
     (let m = round_to_53_bits (nat \<bar>a\<bar>)
      in if 2 ^ 1032 \<le> m then Inl OverflowError
         else Inr (of_int (sgn a * int m) / of_int MAX_SIZE))"

definition math_floor :: "rat \<Rightarrow> int" where
  "math_floor x = \<lfloor>x\<rfloor>"

section \<open>BitStreamTransmitter\<close>

text \<open>The attributes \<^verbatim>\<open>_p\<close>, \<^verbatim>\<open>_data\<close> and \<^verbatim>\<open>_addr_int\<close>.\<close>

record BitStreamTransmitter =
  tx_p :: BitStreamTransferProtocol
  tx_data :: bytes
  tx_addr_int :: int


definition calc_num_required_packets :: "int \<Rightarrow> py_error + int" where
  "calc_num_required_packets file_length =
     (if file_length mod MAX_SIZE = 0
      then (case truediv_MAX_SIZE file_length of
              Inl e \<Rightarrow> Inl e
            | Inr q \<Rightarrow> Inr (math_floor q))
      else (case truediv_MAX_SIZE file_length of
              Inl e \<Rightarrow> Inl e
            | Inr q \<Rightarrow> Inr (math_floor q + 1)))"

definition num_required_packets_int :: "BitStreamTransmitter \<Rightarrow> py_error + int" where
  "num_required_packets_int t = calc_num_required_packets (int (length (tx_data t)))"

definition address :: "BitStreamTransmitter \<Rightarrow> py_error + bytes" where
  "address t = int_to_bytes (tx_addr_int t) 4"

definition num_required_packets :: "BitStreamTransmitter \<Rightarrow> py_error + bytes" where
  "num_required_packets t =
     (case num_required_packets_int t of
        Inl e \<Rightarrow> Inl e
      | Inr n \<Rightarrow> int_to_bytes n 4)"

text \<open>Lifting an operation of the protocol to the transmitter that owns it.\<close>

definition on_protocol ::
  "(BitStreamTransferProtocol \<Rightarrow> 'a outcome \<times> BitStreamTransferProtocol) \<Rightarrow>
     BitStreamTransmitter \<Rightarrow> unit outcome \<times> BitStreamTransmitter" where
  "on_protocol f t =
     (case f (tx_p t) of
        (Returns _, p') \<Rightarrow> (Returns (), t\<lparr>tx_p := p'\<rparr>)
      | (Raises e, p') \<Rightarrow> (Raises e, t\<lparr>tx_p := p'\<rparr>)
      | (Blocks, p') \<Rightarrow> (Blocks, t\<lparr>tx_p := p'\<rparr>))"

text \<open>
  The packet \<^verbatim>\<open>_send_num_packets_and_address\<close> builds: block number 0, payload the
  address followed by the number of packets.
\<close>

definition num_packets_and_address_packet :: "BitStreamTransmitter \<Rightarrow> py_error + Packet" where
  "num_packets_and_address_packet t =
     (case address t of
        Inl e \<Rightarrow> Inl e
      | Inr a \<Rightarrow>
          (case num_required_packets t of
             Inl e \<Rightarrow> Inl e
           | Inr n \<Rightarrow> Packet_init 0 (Bytes (a @ n))))"

definition send_num_packets_and_address ::
  "BitStreamTransmitter \<Rightarrow> unit outcome \<times> BitStreamTransmitter" where
  "send_num_packets_and_address t =
     (case num_packets_and_address_packet t of
        Inl e \<Rightarrow> (Raises e, t)
      | Inr packet \<Rightarrow> on_protocol (send_packet packet) t)"

definition tx_start_transmission ::
  "BitStreamTransmitter \<Rightarrow> unit outcome \<times> BitStreamTransmitter" where
  "tx_start_transmission t = on_protocol start_transmission t"

definition tx_stop_transmission ::
  "BitStreamTransmitter \<Rightarrow> unit outcome \<times> BitStreamTransmitter" where
  "tx_stop_transmission t = on_protocol stop_transmission t"

text \<open>The slice \<^verbatim>\<open>data[a:b]\<close> for indices that are not negative.\<close>

definition py_slice :: "'a list \<Rightarrow> nat \<Rightarrow> nat \<Rightarrow> 'a list" where
  "py_slice xs a b = take (b - a) (drop a xs)"

text \<open>
  The packet of one iteration of \<^verbatim>\<open>_send_bitfile_content\<close>; \<^verbatim>\<open>print\<close> evaluates
  \<^verbatim>\<open>_num_required_packets_int\<close> first.
\<close>

definition bitfile_packet :: "BitStreamTransmitter \<Rightarrow> nat \<Rightarrow> py_error + Packet" where
  "bitfile_packet t i =
     (case num_required_packets_int t of
        Inl e \<Rightarrow> Inl e
      | Inr _ \<Rightarrow>
          Packet_init (int i + 1)
            (Bytes (py_slice (tx_data t) (i * nat MAX_SIZE) ((i + 1) * nat MAX_SIZE))))"

text \<open>One iteration of the \<^verbatim>\<open>for\<close> loop: the packet is built and sent, its reply ignored.\<close>

definition send_bitfile_packet ::
  "nat \<Rightarrow> BitStreamTransmitter \<Rightarrow> unit outcome \<times> BitStreamTransmitter" where
  "send_bitfile_packet i t =
     (case bitfile_packet t i of
        Inl e \<Rightarrow> (Raises e, t)
      | Inr packet \<Rightarrow> on_protocol (send_packet packet) t)"

text \<open>The \<^verbatim>\<open>for\<close> loop, over the identifiers \<^verbatim>\<open>range\<close> yields.\<close>

primrec send_bitfile_loop ::
  "nat list \<Rightarrow> BitStreamTransmitter \<Rightarrow> unit outcome \<times> BitStreamTransmitter" where
  "send_bitfile_loop [] t = (Returns (), t)"
| "send_bitfile_loop (i # ids) t = and_then (send_bitfile_packet i) (send_bitfile_loop ids) t"

definition send_bitfile_content ::
  "BitStreamTransmitter \<Rightarrow> unit outcome \<times> BitStreamTransmitter" where
  "send_bitfile_content t =
     (case num_required_packets_int t of
        Inl e \<Rightarrow> (Raises e, t)
      | Inr n \<Rightarrow> send_bitfile_loop [0..<nat n] t)"

text \<open>
  \<^verbatim>\<open>upload_bitstream_to\<close>. The file system is outside the model: \<open>bitfile\<close> is what
  \<^verbatim>\<open>f.read()\<close> returns for the path. The calls of \<^verbatim>\<open>print\<close> write to the standard
  output only, but the second one evaluates \<^verbatim>\<open>_num_required_packets_int\<close>, which can
  raise.
\<close>

definition upload_bitstream_to ::
  "bytes \<Rightarrow> int \<Rightarrow> BitStreamTransmitter \<Rightarrow> unit outcome \<times> BitStreamTransmitter" where
  "upload_bitstream_to bitfile addr t =
     and_then tx_start_transmission
       (\<lambda>t1. case num_required_packets_int t1 of
                Inl e \<Rightarrow> (Raises e, t1)
              | Inr _ \<Rightarrow>
                  and_then send_num_packets_and_address
                    (and_then send_bitfile_content tx_stop_transmission) t1)
       (t\<lparr>tx_data := bitfile, tx_addr_int := addr\<rparr>)"

section \<open>Reference definitions\<close>

text \<open>
  What the specification says is on the wire, written independently of the code above:
  the fixed-width big-endian encoding (the low \<open>w\<close> bytes of the number), the bytes of a
  packet object, the frame of a block id with its payload, the metadata frame, the frame of
  the \<open>i\<close>-th chunk of a file, and the sequence of writes of one upload of a file to an
  address in \<open>n\<close> body packets.
\<close>

primrec be_bytes :: "nat \<Rightarrow> int \<Rightarrow> bytes" where
  "be_bytes 0 v = []"
| "be_bytes (Suc w) v = be_bytes w (v div 256) @ [word_of_int (v mod 256)]"

definition packet_frame :: "Packet \<Rightarrow> bytes" where
  "packet_frame packet =
     pkt_start_of_header packet @ pkt_block_number packet @
     be_bytes 2 (int (length (pkt_payload packet))) @ pkt_payload packet @
     [word_of_int (sum_list (map uint (pkt_payload packet)))]"

definition wire_frame :: "int \<Rightarrow> bytes \<Rightarrow> bytes" where
  "wire_frame b p =
     [0x01] @ be_bytes 2 b @ be_bytes 2 (int (length p)) @ p @
     [word_of_int (sum_list (map uint p) mod 256)]"

definition metadata_frame :: "int \<Rightarrow> int \<Rightarrow> bytes" where
  "metadata_frame addr n = wire_frame 0 (be_bytes 4 addr @ be_bytes 4 n)"

definition body_frame :: "bytes \<Rightarrow> nat \<Rightarrow> bytes" where
  "body_frame file i = wire_frame (int i + 1) (py_slice file (i * 256) ((i + 1) * 256))"

definition spec_upload_writes :: "bytes \<Rightarrow> int \<Rightarrow> int \<Rightarrow> bytes list" where
  "spec_upload_writes file addr n =
     [[0x31], metadata_frame addr n] @ map (body_frame file) [0..<nat n] @ [[0x04]]"

text \<open>
  An operation of the transmitter runs, for the file \<open>d\<close>, the address \<open>a\<close> and the incoming
  bytes \<open>inc\<close>, with outcome \<open>r\<close>, writes \<open>ws\<close> and remaining bytes \<open>inc'\<close>, when it does
  so from every state that holds \<open>d\<close>, \<open>a\<close> and \<open>inc\<close>, whatever else the state holds.
\<close>

definition runs ::
  "(BitStreamTransmitter \<Rightarrow> unit outcome \<times> BitStreamTransmitter) \<Rightarrow> bytes \<Rightarrow> int \<Rightarrow> bytes \<Rightarrow>
     unit outcome \<Rightarrow> bytes list \<Rightarrow> bytes \<Rightarrow> bool" where
  "runs op d a inc r ws inc' \<longleftrightarrow>
     (\<forall>t. tx_data t = d \<and> tx_addr_int t = a \<and> incoming (proto_sp (tx_p t)) = inc \<longrightarrow>
          (\<exists>t'. op t = (r, t') \<and> tx_data t' = d \<and> tx_addr_int t' = a \<and>
                incoming (proto_sp (tx_p t')) = inc' \<and>
                written (proto_sp (tx_p t')) = written (proto_sp (tx_p t)) @ ws))"

text \<open>
  An operation performs the writes \<open>W\<close> when, whatever the incoming bytes, it runs and has
  written exactly \<open>W\<close> if it returns.
\<close>

definition performs ::
  "(BitStreamTransmitter \<Rightarrow> unit outcome \<times> BitStreamTransmitter) \<Rightarrow> bytes \<Rightarrow> int \<Rightarrow>
     bytes list \<Rightarrow> bool" where
  "performs op d a W \<longleftrightarrow>
     (\<forall>inc. \<exists>r ws inc'. runs op d a inc r ws inc' \<and> (r = Returns () \<longrightarrow> ws = W))"

section \<open>Properties of the packet encoding\<close>

lemma and_ff: "(x::int) AND 0xff = x mod 256"
  using take_bit_eq_mask [of 8 x] by (simp add: take_bit_eq_mod mask_eq_exp_minus_1)

lemma word_of_int_mod_256: "(word_of_int (k mod 256) :: byte) = word_of_int k"
  by (simp add: word_of_int_eq_iff take_bit_eq_mod)

lemma int_to_bytes_eq:
  "int_to_bytes v len = Inr (map (\<lambda>i. word_of_int (drop_bit (i * 8) v)) (rev [0..<nat len]))"
  unfolding int_to_bytes_def py_bytes_def
  by (simp add: list_all_iff and_ff o_def word_of_int_mod_256)

lemma big_endian_value_acc:
  "foldl (\<lambda>acc b. acc * 256 + unat (b::byte)) a bs = a * 256 ^ length bs + big_endian_value bs"
proof -
  define f where "f = (\<lambda>acc (b::byte). acc * 256 + unat b)"
  have "foldl f a bs = a * 256 ^ length bs + foldl f 0 bs" for a
  proof (induction bs arbitrary: a)
    case Nil
    show ?case by simp
  next
    case (Cons b bs)
    have "foldl f a (b # bs) = f a b * 256 ^ length bs + foldl f 0 bs"
      using Cons.IH [of "f a b"] by simp
    moreover have "foldl f 0 (b # bs) = f 0 b * 256 ^ length bs + foldl f 0 bs"
      using Cons.IH [of "f 0 b"] by simp
    ultimately show ?case
      by (simp add: f_def algebra_simps)
  qed
  from this [of a] show ?thesis
    by (simp only: f_def big_endian_value_def)
qed

lemma big_endian_value_Nil: "big_endian_value [] = 0"
  by (simp add: big_endian_value_def)

lemma big_endian_value_Cons:
  "big_endian_value (b # bs) = unat b * 256 ^ length bs + big_endian_value bs"
  using big_endian_value_acc [of "unat b" bs] by (simp add: big_endian_value_def)

lemma unat_byte_of_int: "int (unat (word_of_int k :: byte)) = k mod 256"
  by (simp add: uint_word_of_int)

lemma big_endian_value_shifts:
  "int (big_endian_value (map (\<lambda>i. word_of_int (drop_bit (i * 8) v)) (rev [0..<w]))) =
     v mod 2 ^ (8 * w)"
proof (induction w)
  case 0
  show ?case by (simp add: big_endian_value_Nil)
next
  case (Suc w)
  let ?bs = "map (\<lambda>i. word_of_int (drop_bit (i * 8) v) :: byte) (rev [0..<w])"
  have split: "v mod (2 ^ (8 * w) * 256) = 2 ^ (8 * w) * (v div 2 ^ (8 * w) mod 256) + v mod 2 ^ (8 * w)"
    by (rule zmod_zmult2_eq) simp
  have pow: "(256::int) ^ w = 2 ^ (8 * w)"
    by (simp add: power_mult)
  have "int (big_endian_value (word_of_int (drop_bit (w * 8) v) # ?bs)) =
          (v div 2 ^ (8 * w) mod 256) * 256 ^ w + v mod 2 ^ (8 * w)"
    using Suc.IH
    by (simp only: big_endian_value_Cons of_nat_add of_nat_mult unat_byte_of_int
        drop_bit_eq_div length_map length_rev length_upt of_nat_power of_nat_numeral
        mult.commute [of w 8] diff_zero)
  also have "\<dots> = v mod 2 ^ (8 * Suc w)"
    using split by (simp add: pow power_add mult.commute)
  finally show ?case
    by simp
qed

text \<open>
  Claim C8. For every integer \<open>v\<close> (so for every \<open>v \<ge> 0\<close>) and every width \<open>w \<ge> 0\<close>,
  \<open>int_to_bytes v w\<close> does not raise and returns exactly \<open>w\<close> bytes whose big-endian
  value is \<open>v mod 2 ^ (8 * w)\<close>: a value too large for the width is truncated silently.
\<close>

theorem int_to_bytes_big_endian:
  "\<exists>bs. int_to_bytes v (int w) = Inr bs \<and> length bs = w \<and>
        int (big_endian_value bs) = v mod 2 ^ (8 * w)"
  by (simp add: int_to_bytes_eq big_endian_value_shifts)

lemma int_to_bytes_1: "int_to_bytes v 1 = Inr [word_of_int v]"
  by (simp add: int_to_bytes_eq)

lemma int_to_bytes_2: "int_to_bytes v 2 = Inr [word_of_int (v div 256), word_of_int v]"
  by (simp add: int_to_bytes_eq eval_nat_numeral drop_bit_eq_div)

lemma int_to_bytes_4:
  "int_to_bytes v 4 = Inr [word_of_int (v div 16777216), word_of_int (v div 65536),
     word_of_int (v div 256), word_of_int v]"
  by (simp add: int_to_bytes_eq eval_nat_numeral drop_bit_eq_div)

theorem int_to_bytes_big_endian_witness:
  "\<exists>bs. int_to_bytes 65538 (int 2) = Inr bs \<and> length bs = 2 \<and> int (big_endian_value bs) = 2"
  using int_to_bytes_big_endian [of 65538 2] by simp


lemma as_bytearray_eq:
  "as_bytearray pkt =
     Inr (pkt_start_of_header pkt @ pkt_block_number pkt @
          [word_of_int (int (length (pkt_payload pkt)) div 256),
           word_of_int (int (length (pkt_payload pkt)))] @
          pkt_payload pkt @ [word_of_int (sum_list (map uint (pkt_payload pkt)))])"
  by (simp add: as_bytearray_def payload_length_def check_sum_def int_to_bytes_1 int_to_bytes_2
      and_ff word_of_int_mod_256)

lemma Packet_init_eq:
  assumes "arg = ByteArray p \<or> arg = Bytes p \<or> arg = IntList (map uint p)"
  shows "Packet_init b arg =
     Inr \<lparr>pkt_block_number = [word_of_int (b div 256), word_of_int b],
          pkt_start_of_header = [0x01], pkt_payload = p\<rparr>"
proof -
  have "py_bytes (map uint p) = Inr p"
    by (simp add: py_bytes_def list_all_iff o_def map_idI) (simp add: uint_lt2p [where 'a = 8, simplified])
  with assms show ?thesis
    by (auto simp: Packet_init_def int_to_bytes_2 bytearray_def)
qed

lemma serialize_eq:
  assumes "arg = ByteArray p \<or> arg = Bytes p \<or> arg = IntList (map uint p)"
  shows "serialize b arg =
     Inr ([0x01, word_of_int (b div 256), word_of_int b,
           word_of_int (int (length p) div 256), word_of_int (int (length p))] @
          p @ [word_of_int (sum_list (map uint p))])"
  by (simp add: serialize_def Packet_init_eq [OF assms] as_bytearray_eq)

lemma uint_byte_of_int: "uint (word_of_int k :: byte) = k mod 256"
  by (simp add: uint_word_of_int)

lemma uint_byte_of_nat: "uint (word_of_nat n :: byte) = int n mod 256"
  using uint_byte_of_int [of "int n"] by simp

text \<open>
  Claim C1. For a block id \<open>0 \<le> b < 2 ^ 16\<close> and a payload \<open>p\<close> of at most 256 bytes
  (passed as a bytearray, as bytes or as the list of its integers), the serialised packet is
  the byte \<open>0x01\<close>, the two bytes of \<open>b\<close> and the two bytes of the payload length (high
  byte first), the payload, and the sum of the payload bytes modulo 256, in that order.
\<close>

theorem packet_wire_layout:
  assumes "0 \<le> b" and "b < 2 ^ 16" and "length p \<le> 256"
    and "arg = ByteArray p \<or> arg = Bytes p \<or> arg = IntList (map uint p)"
  shows "\<exists>frame. serialize b arg = Inr frame \<and>
           map uint frame =
             [1, b div 256, b mod 256, int (length p) div 256, int (length p) mod 256] @
             map uint p @ [sum_list (map uint p) mod 256]"
proof -
  have "b div 256 mod 256 = b div 256"
    using assms(1,2) by (intro mod_pos_pos_trivial) auto
  moreover have "int (length p) div 256 mod 256 = int (length p) div 256"
    using assms(3) by (intro mod_pos_pos_trivial) auto
  ultimately show ?thesis
    by (simp add: serialize_eq [OF assms(4)] uint_byte_of_int uint_byte_of_nat)
qed

theorem packet_wire_layout_witness:
  "\<exists>frame. serialize 258 (Bytes [255, 255, 3]) = Inr frame \<and>
     map uint frame = [1, 1, 2, 0, 3, 255, 255, 3, 1]"
  using packet_wire_layout [of 258 "[255, 255, 3]" "Bytes [255, 255, 3]"] by simp

lemma big_endian_value_2:
  assumes "0 \<le> v" and "v < 65536"
  shows "int (big_endian_value [word_of_int (v div 256), word_of_int v :: byte]) = v"
proof -
  have "v div 256 mod 256 = v div 256"
    using assms by (intro mod_pos_pos_trivial) auto
  then show ?thesis
    by (simp add: big_endian_value_Cons big_endian_value_Nil uint_byte_of_int)
qed

lemma deserialize_serialized:
  assumes "0 \<le> b" and "b < 2 ^ 16" and "length p \<le> 256"
  shows "deserialize ([0x01, word_of_int (b div 256), word_of_int b,
           word_of_int (int (length p) div 256), word_of_int (int (length p))] @
          p @ [word_of_int (sum_list (map uint p))]) = Some (b, p)"
proof -
  have len: "big_endian_value [word_of_int (int (length p) div 256), word_of_int (int (length p)) :: byte] = length p"
    using big_endian_value_2 [of "int (length p)"] assms(3) by simp
  have blk: "int (big_endian_value [word_of_int (b div 256), word_of_int b :: byte]) = b"
    using big_endian_value_2 [of b] assms(1,2) by simp
  show ?thesis
    using len blk by (simp add: deserialize_def Let_def uint_byte_of_int)
qed

text \<open>
  Claim C6. For a block id \<open>0 \<le> b < 2 ^ 16\<close> and a payload \<open>p\<close> of at most 256 bytes, reading
  the header fields of the serialised packet gives back exactly \<open>b\<close> and \<open>p\<close>, the last
  byte of the frame is the sum of the payload bytes modulo 256, and no other block id and
  payload in these ranges serialise to the same frame.
\<close>

theorem serialize_round_trip:
  assumes "0 \<le> b" and "b < 2 ^ 16" and "length p \<le> 256"
    and "arg = ByteArray p \<or> arg = Bytes p \<or> arg = IntList (map uint p)"
  shows "\<exists>frame. serialize b arg = Inr frame \<and> deserialize frame = Some (b, p) \<and>
           uint (last frame) = sum_list (map uint p) mod 256 \<and>
           (\<forall>b' p'. 0 \<le> b' \<and> b' < 2 ^ 16 \<and> length p' \<le> 256 \<and>
                    serialize b' (Bytes p') = Inr frame \<longrightarrow> b' = b \<and> p' = p)"
proof -
  let ?frame = "[0x01, word_of_int (b div 256), word_of_int b,
           word_of_int (int (length p) div 256), word_of_int (int (length p))] @
          p @ [word_of_int (sum_list (map uint p))]"
  have ser: "serialize b arg = Inr ?frame"
    by (rule serialize_eq [OF assms(4)])
  have des: "deserialize ?frame = Some (b, p)"
    by (rule deserialize_serialized [OF assms(1-3)])
  have chk: "uint (last ?frame) = sum_list (map uint p) mod 256"
    by (simp add: uint_byte_of_int)
  have unique: "b' = b \<and> p' = p"
    if "0 \<le> b' \<and> b' < 2 ^ 16 \<and> length p' \<le> 256 \<and> serialize b' (Bytes p') = Inr ?frame"
    for b' p'
  proof -
    have "serialize b' (Bytes p') =
        Inr ([0x01, word_of_int (b' div 256), word_of_int b',
           word_of_int (int (length p') div 256), word_of_int (int (length p'))] @
          p' @ [word_of_int (sum_list (map uint p'))])"
      by (rule serialize_eq) simp
    with that have same: "[0x01, word_of_int (b' div 256), word_of_int b',
           word_of_int (int (length p') div 256), word_of_int (int (length p'))] @
          p' @ [word_of_int (sum_list (map uint p'))] = ?frame"
      by (simp only: sum.inject)
    have "deserialize ?frame = Some (b', p')"
      using that deserialize_serialized [of b' p'] unfolding same by blast
    with des show ?thesis by (simp only: option.inject prod.inject)
  qed
  from ser des chk unique show ?thesis
    by blast
qed

theorem serialize_round_trip_witness:
  "\<exists>frame. serialize 258 (Bytes [255, 255, 3]) = Inr frame \<and>
     deserialize frame = Some (258, [255, 255, 3]) \<and> uint (last frame) = 1"
proof -
  have "\<exists>frame. serialize 258 (Bytes [255, 255, 3]) = Inr frame \<and>
     deserialize frame = Some (258, [255, 255, 3]) \<and>
     uint (last frame) = sum_list (map uint [255, 255, 3 :: byte]) mod 256 \<and>
     (\<forall>b' p'. 0 \<le> b' \<and> b' < 2 ^ 16 \<and> length p' \<le> 256 \<and>
         serialize b' (Bytes p') = Inr frame \<longrightarrow> b' = 258 \<and> p' = [255, 255, 3])"
    by (rule serialize_round_trip) simp_all
  then obtain frame where "serialize 258 (Bytes [255, 255, 3]) = Inr frame"
    and "deserialize frame = Some (258, [255, 255, 3])"
    and "uint (last frame) = sum_list (map uint [255, 255, 3 :: byte]) mod 256"
    by blast
  then show ?thesis
    by simp
qed

text \<open>
  Claim C9. For every packet, however it was built, reading the property
  \<open>block_number\<close> raises \<open>PermissionError\<close> and returns nothing, while assigning to it
  succeeds and stores the two-byte encoding of the value.
\<close>

theorem block_number_write_only:
  "block_number_getter pkt = Inl PermissionError \<and>
   block_number_setter pkt v =
     Inr (pkt\<lparr>pkt_block_number := [word_of_int (v div 256), word_of_int v]\<rparr>)"
  by (simp add: block_number_getter_def block_number_setter_def int_to_bytes_2)

theorem block_number_write_only_witness:
  "block_number_getter \<lparr>pkt_block_number = [0, 1], pkt_start_of_header = [1], pkt_payload = []\<rparr>
     = Inl PermissionError \<and>
   block_number_setter \<lparr>pkt_block_number = [0, 1], pkt_start_of_header = [1], pkt_payload = []\<rparr> 515
     = Inr \<lparr>pkt_block_number = [2, 3], pkt_start_of_header = [1], pkt_payload = []\<rparr>"
  using block_number_write_only
    [of "\<lparr>pkt_block_number = [0, 1], pkt_start_of_header = [1], pkt_payload = []\<rparr>" 515]
  by simp

section \<open>The fixed-width encoding and the frame\<close>

lemma rev_upt_Suc: "rev [0..<Suc w] = map Suc (rev [0..<w]) @ [0]"
proof -
  have "[0..<Suc w] = 0 # map Suc [0..<w]"
    by (simp add: upt_conv_Cons map_Suc_upt del: upt_Suc)
  then show ?thesis
    by (simp add: rev_map del: upt_Suc)
qed

lemma shifted_bytes_eq_be_bytes:
  "map (\<lambda>i. word_of_int (drop_bit (i * 8) v) :: byte) (rev [0..<w]) = be_bytes w v"
proof (induction w arbitrary: v)
  case 0
  show ?case by simp
next
  case (Suc w)
  have "map (\<lambda>i. word_of_int (drop_bit (i * 8) v) :: byte) (rev [0..<Suc w]) =
        map (\<lambda>i. word_of_int (drop_bit (i * 8) (v div 256))) (rev [0..<w]) @ [word_of_int v]"
    by (simp add: rev_upt_Suc o_def drop_bit_eq_div power_add zdiv_zmult2_eq mult.commute del: upt_Suc)
  then show ?case
    by (simp add: Suc.IH word_of_int_mod_256 del: upt_Suc)
qed

lemma int_to_bytes_be_bytes: "int_to_bytes v (int w) = Inr (be_bytes w v)"
  by (simp add: int_to_bytes_eq shifted_bytes_eq_be_bytes)

lemma be_bytes_2: "be_bytes 2 v = [word_of_int (v div 256), word_of_int v]"
  by (simp add: eval_nat_numeral word_of_int_mod_256)


lemma serialize_wire_frame:
  assumes "arg = ByteArray p \<or> arg = Bytes p \<or> arg = IntList (map uint p)"
  shows "serialize b arg = Inr (wire_frame b p)"
  by (simp add: serialize_eq [OF assms] wire_frame_def be_bytes_2 word_of_int_mod_256)

section \<open>Properties of the protocol\<close>

lemma wait_for_chars_blocks:
  "\<forall>b\<in>set (incoming port). [b] \<notin> set chars \<Longrightarrow>
     wait_for_chars chars port = (Blocks, port\<lparr>incoming := []\<rparr>)"
proof (induction "incoming port" arbitrary: port)
  case Nil
  then show ?case
    by (subst wait_for_chars.simps) (simp add: sp_read_def)
next
  case (Cons b rest)
  from Cons.hyps(2) have inc: "incoming port = b # rest" by simp
  have "wait_for_chars chars (port\<lparr>incoming := rest\<rparr>) =
          (Blocks, port\<lparr>incoming := rest, incoming := []\<rparr>)"
    using Cons.prems inc by (intro Cons.hyps(1)) auto
  then show ?case
    using Cons.prems inc by (subst wait_for_chars.simps) (simp add: sp_read_def)
qed

lemma wait_for_chars_first:
  "incoming port = skipped @ r # rest \<Longrightarrow> \<forall>b\<in>set skipped. [b] \<notin> set chars \<Longrightarrow>
     [r] \<in> set chars \<Longrightarrow>
     wait_for_chars chars port = (Returns [r], port\<lparr>incoming := rest\<rparr>)"
proof (induction skipped arbitrary: port)
  case Nil
  then show ?case
    by (subst wait_for_chars.simps) (simp add: sp_read_def)
next
  case (Cons b skipped)
  have "wait_for_chars chars (port\<lparr>incoming := skipped @ r # rest\<rparr>) =
          (Returns [r], port\<lparr>incoming := skipped @ r # rest, incoming := rest\<rparr>)"
    using Cons.prems by (intro Cons.IH) auto
  then show ?case
    using Cons.prems by (subst wait_for_chars.simps) (simp add: sp_read_def)
qed

lemma first_match_split:
  assumes "\<exists>b\<in>set xs. P b"
  shows "\<exists>skipped r rest. xs = skipped @ r # rest \<and> (\<forall>b\<in>set skipped. \<not> P b) \<and> P r"
  using assms split_list_first_prop [of xs P] by blast

lemma first_match_unique:
  assumes "xs = s1 @ r1 # t1" and "xs = s2 @ r2 # t2"
    and "\<forall>b\<in>set s1. \<not> P b" and "P r1" and "\<forall>b\<in>set s2. \<not> P b" and "P r2"
  shows "s1 = s2 \<and> r1 = r2 \<and> t1 = t2"
  using assms
proof (induction s1 arbitrary: s2 xs)
  case Nil
  then show ?case by (cases s2) auto
next
  case (Cons a s1)
  show ?case
  proof (cases s2)
    case Nil
    with Cons.prems show ?thesis by auto
  next
    case (Cons b s2')
    with Cons.prems have "s1 = s2' \<and> r1 = r2 \<and> t1 = t2"
      by (intro Cons.IH [of "s1 @ r1 # t1" s2']) auto
    with Cons Cons.prems show ?thesis by auto
  qed
qed

lemma wait_for_ack_first:
  assumes "incoming (proto_sp p) = skipped @ r # rest"
    and "\<forall>b\<in>set skipped. b \<noteq> 0x06 \<and> b \<noteq> 0x15"
    and "r = 0x06 \<or> r = 0x15"
  shows "wait_for_ack p = (Returns (r = 0x06), p\<lparr>proto_sp := (proto_sp p)\<lparr>incoming := rest\<rparr>\<rparr>)"
proof -
  have "wait_for_chars [control_value ACK, control_value NAK] (proto_sp p) =
          (Returns [r], (proto_sp p)\<lparr>incoming := rest\<rparr>)"
    using assms by (intro wait_for_chars_first [where skipped = skipped]) auto
  then show ?thesis
    by (simp add: wait_for_ack_def on_port_def)
qed

lemma wait_for_ack_blocks:
  assumes "\<forall>b\<in>set (incoming (proto_sp p)). b \<noteq> 0x06 \<and> b \<noteq> 0x15"
  shows "wait_for_ack p = (Blocks, p\<lparr>proto_sp := (proto_sp p)\<lparr>incoming := []\<rparr>\<rparr>)"
proof -
  have "wait_for_chars [control_value ACK, control_value NAK] (proto_sp p) =
          (Blocks, (proto_sp p)\<lparr>incoming := []\<rparr>)"
    using assms by (intro wait_for_chars_blocks) auto
  then show ?thesis
    by (simp add: wait_for_ack_def on_port_def)
qed

lemma as_bytearray_total:
  "as_bytearray packet =
     Inr (pkt_start_of_header packet @ pkt_block_number packet @
          be_bytes 2 (int (length (pkt_payload packet))) @ pkt_payload packet @
          [word_of_int (sum_list (map uint (pkt_payload packet)))])"
  by (simp add: as_bytearray_eq be_bytes_2)

lemma as_bytearray_packet_frame: "as_bytearray packet = Inr (packet_frame packet)"
  by (simp add: as_bytearray_total packet_frame_def)

lemma send_packet_returns:
  assumes "incoming (proto_sp p) = skipped @ r # rest"
    and "\<forall>b\<in>set skipped. b \<noteq> 0x06 \<and> b \<noteq> 0x15"
    and "r = 0x06 \<or> r = 0x15"
  shows "send_packet packet p =
     (Returns (r = 0x06),
      p\<lparr>proto_sp := \<lparr>written = written (proto_sp p) @ [packet_frame packet], incoming = rest\<rparr>\<rparr>)"
proof -
  let ?p1 = "p\<lparr>proto_sp := sp_write (packet_frame packet) (proto_sp p)\<rparr>"
  have "wait_for_ack ?p1 = (Returns (r = 0x06), ?p1\<lparr>proto_sp := (proto_sp ?p1)\<lparr>incoming := rest\<rparr>\<rparr>)"
    using assms by (intro wait_for_ack_first [where skipped = skipped]) (auto simp: sp_write_def)
  then show ?thesis
    by (simp add: send_packet_def as_bytearray_packet_frame sp_write_def)
qed

lemma send_packet_blocks:
  assumes "\<forall>b\<in>set (incoming (proto_sp p)). b \<noteq> 0x06 \<and> b \<noteq> 0x15"
  shows "send_packet packet p =
     (Blocks,
      p\<lparr>proto_sp := \<lparr>written = written (proto_sp p) @ [packet_frame packet], incoming = []\<rparr>\<rparr>)"
proof -
  let ?p1 = "p\<lparr>proto_sp := sp_write (packet_frame packet) (proto_sp p)\<rparr>"
  have "wait_for_ack ?p1 = (Blocks, ?p1\<lparr>proto_sp := (proto_sp ?p1)\<lparr>incoming := []\<rparr>\<rparr>)"
    using assms by (intro wait_for_ack_blocks) (auto simp: sp_write_def)
  then show ?thesis
    by (simp add: send_packet_def as_bytearray_packet_frame sp_write_def)
qed

lemma make_bytes_control: "make_bytes (WControl c) = Inr (control_value c)"
  by simp

lemma start_transmission_returns:
  assumes "incoming (proto_sp p) = skipped @ r # rest"
    and "\<forall>b\<in>set skipped. b \<noteq> 0x43 \<and> b \<noteq> 0x15"
    and "r = 0x43 \<or> r = 0x15"
  shows "start_transmission p =
     (Returns (),
      \<lparr>proto_sp = \<lparr>written = written (proto_sp p) @ [[0x31]], incoming = rest\<rparr>,
       proto_crc_mode = Some [r]\<rparr>)"
proof -
  let ?port = "sp_write [0x31] (proto_sp p)"
  have "wait_for_chars [control_value C, control_value NAK] ?port =
          (Returns [r], ?port\<lparr>incoming := rest\<rparr>)"
    using assms by (intro wait_for_chars_first [where skipped = skipped]) (auto simp: sp_write_def)
  then show ?thesis
    by (simp add: start_transmission_def proto_write_def check_crc_mode_def on_port_def
        sp_write_def)
qed

lemma start_transmission_blocks:
  assumes "\<forall>b\<in>set (incoming (proto_sp p)). b \<noteq> 0x43 \<and> b \<noteq> 0x15"
  shows "start_transmission p =
     (Blocks, p\<lparr>proto_sp := \<lparr>written = written (proto_sp p) @ [[0x31]], incoming = []\<rparr>\<rparr>)"
proof -
  let ?port = "sp_write [0x31] (proto_sp p)"
  have "wait_for_chars [control_value C, control_value NAK] ?port =
          (Blocks, ?port\<lparr>incoming := []\<rparr>)"
    using assms by (intro wait_for_chars_blocks) (auto simp: sp_write_def)
  then show ?thesis
    by (simp add: start_transmission_def proto_write_def check_crc_mode_def on_port_def
        sp_write_def)
qed

lemma read_until_scan_found:
  "x \<notin> set skipped \<Longrightarrow>
     read_until_scan [x] line (skipped @ x # rest) = Some (line @ skipped @ [x], rest)"
  by (induction skipped arbitrary: line) (auto simp: Let_def)

lemma read_until_scan_missing:
  "x \<notin> set bs \<Longrightarrow> read_until_scan [x] line bs = None"
  by (induction bs arbitrary: line) (auto simp: Let_def)

lemma stop_transmission_returns:
  assumes "incoming (proto_sp p) = skipped @ 0x06 # rest" and "0x06 \<notin> set skipped"
  shows "stop_transmission p =
     (Returns (), p\<lparr>proto_sp := \<lparr>written = written (proto_sp p) @ [[0x04]], incoming = rest\<rparr>\<rparr>)"
  using assms read_until_scan_found [of "0x06" skipped "[]" rest]
  by (simp add: stop_transmission_def proto_write_def on_port_def sp_read_until_def sp_write_def)

lemma stop_transmission_blocks:
  assumes "0x06 \<notin> set (incoming (proto_sp p))"
  shows "stop_transmission p =
     (Blocks, p\<lparr>proto_sp := \<lparr>written = written (proto_sp p) @ [[0x04]], incoming = []\<rparr>\<rparr>)"
  using assms read_until_scan_missing [of "0x06" "incoming (proto_sp p)" "[]"]
  by (simp add: stop_transmission_def proto_write_def on_port_def sp_read_until_def sp_write_def)

text \<open>
  Claim C7. \<open>send_packet\<close> first writes the serialised packet, once, and then reads. When
  the reply stream holds an ACK (\<open>0x06\<close>) or a NAK (\<open>0x15\<close>), it consumes the replies up to
  and including the first such byte, discards the bytes before it, and returns whether
  that byte is ACK. When the stream holds neither, the frame has still been written, every
  reply has been consumed and the call never returns: the write comes before the wait.
  Nothing else is written: there is no retry.
\<close>

theorem send_packet_first_reply:
  "\<exists>frame. as_bytearray packet = Inr frame \<and>
     ((\<exists>b\<in>set (incoming (proto_sp p)). b = 0x06 \<or> b = 0x15) \<longrightarrow>
        (\<exists>skipped r rest.
           incoming (proto_sp p) = skipped @ r # rest \<and>
           (\<forall>b\<in>set skipped. b \<noteq> 0x06 \<and> b \<noteq> 0x15) \<and> (r = 0x06 \<or> r = 0x15) \<and>
           send_packet packet p =
             (Returns (r = 0x06),
              p\<lparr>proto_sp := \<lparr>written = written (proto_sp p) @ [frame], incoming = rest\<rparr>\<rparr>))) \<and>
     ((\<forall>b\<in>set (incoming (proto_sp p)). b \<noteq> 0x06 \<and> b \<noteq> 0x15) \<longrightarrow>
        send_packet packet p =
          (Blocks,
           p\<lparr>proto_sp := \<lparr>written = written (proto_sp p) @ [frame], incoming = []\<rparr>\<rparr>))"
proof -
  have "(\<exists>skipped r rest.
           incoming (proto_sp p) = skipped @ r # rest \<and>
           (\<forall>b\<in>set skipped. b \<noteq> 0x06 \<and> b \<noteq> 0x15) \<and> (r = 0x06 \<or> r = 0x15) \<and>
           send_packet packet p =
             (Returns (r = 0x06),
              p\<lparr>proto_sp := \<lparr>written = written (proto_sp p) @ [packet_frame packet],
                             incoming = rest\<rparr>\<rparr>))"
    if has: "\<exists>b\<in>set (incoming (proto_sp p)). b = 0x06 \<or> b = 0x15"
  proof -
    obtain skipped r rest where split: "incoming (proto_sp p) = skipped @ r # rest"
      and skipped: "\<forall>b\<in>set skipped. \<not> (b = 0x06 \<or> b = 0x15)" and r: "r = 0x06 \<or> r = 0x15"
      using first_match_split [OF has] by blast
    from skipped have skipped': "\<forall>b\<in>set skipped. b \<noteq> 0x06 \<and> b \<noteq> 0x15"
      by blast
    from send_packet_returns [OF split skipped' r] split skipped' r show ?thesis
      by blast
  qed
  moreover have "send_packet packet p =
          (Blocks,
           p\<lparr>proto_sp := \<lparr>written = written (proto_sp p) @ [packet_frame packet],
                          incoming = []\<rparr>\<rparr>)"
    if "\<forall>b\<in>set (incoming (proto_sp p)). b \<noteq> 0x06 \<and> b \<noteq> 0x15"
    using that by (rule send_packet_blocks)
  ultimately show ?thesis
    using as_bytearray_packet_frame [of packet] by blast
qed

theorem send_packet_first_reply_witness:
  "send_packet \<lparr>pkt_block_number = [0, 1], pkt_start_of_header = [1], pkt_payload = [7]\<rparr>
     \<lparr>proto_sp = \<lparr>written = [], incoming = [0x43, 0x15, 0x06]\<rparr>, proto_crc_mode = None\<rparr> =
   (Returns False,
    \<lparr>proto_sp = \<lparr>written = [[1, 0, 1, 0, 1, 7, 7]], incoming = [0x06]\<rparr>, proto_crc_mode = None\<rparr>) \<and>
   send_packet \<lparr>pkt_block_number = [0, 1], pkt_start_of_header = [1], pkt_payload = [7]\<rparr>
     \<lparr>proto_sp = \<lparr>written = [], incoming = [0x43, 0x18]\<rparr>, proto_crc_mode = None\<rparr> =
   (Blocks,
    \<lparr>proto_sp = \<lparr>written = [[1, 0, 1, 0, 1, 7, 7]], incoming = []\<rparr>, proto_crc_mode = None\<rparr>)"
proof -
  let ?pkt = "\<lparr>pkt_block_number = [0, 1], pkt_start_of_header = [1], pkt_payload = [7]\<rparr>"
  let ?p = "\<lparr>proto_sp = \<lparr>written = [], incoming = [0x43, 0x15, 0x06]\<rparr>, proto_crc_mode = None\<rparr>"
  let ?q = "\<lparr>proto_sp = \<lparr>written = [], incoming = [0x43, 0x18]\<rparr>, proto_crc_mode = None\<rparr>"
  have frame: "as_bytearray ?pkt = Inr [1, 0, 1, 0, 1, 7, 7]"
    by (simp add: as_bytearray_total be_bytes_2)
  have "\<exists>b\<in>set (incoming (proto_sp ?p)). b = 0x06 \<or> b = 0x15"
    by simp
  with send_packet_first_reply [of ?pkt ?p] frame
  obtain skipped r rest where split: "incoming (proto_sp ?p) = skipped @ r # rest"
    and skipped: "\<forall>b\<in>set skipped. b \<noteq> 0x06 \<and> b \<noteq> 0x15" and r: "r = 0x06 \<or> r = 0x15"
    and sent: "send_packet ?pkt ?p =
             (Returns (r = 0x06),
              ?p\<lparr>proto_sp := \<lparr>written = written (proto_sp ?p) @ [[1, 0, 1, 0, 1, 7, 7]],
                              incoming = rest\<rparr>\<rparr>)"
    by (simp only: sum.inject) blast
  have "skipped = [0x43] \<and> r = 0x15 \<and> rest = [0x06]"
  proof (rule first_match_unique [where P = "\<lambda>b. b = 0x06 \<or> b = 0x15"])
    show "incoming (proto_sp ?p) = skipped @ r # rest"
      by fact
    show "incoming (proto_sp ?p) = [0x43] @ 0x15 # [0x06]"
      by simp
    show "\<forall>b\<in>set skipped. \<not> (b = 0x06 \<or> b = 0x15)"
      using skipped by blast
    show "r = 0x06 \<or> r = 0x15"
      by fact
  qed simp_all
  with sent have first: "send_packet ?pkt ?p =
      (Returns False,
       \<lparr>proto_sp = \<lparr>written = [[1, 0, 1, 0, 1, 7, 7]], incoming = [0x06]\<rparr>,
        proto_crc_mode = None\<rparr>)"
    by simp
  have "\<forall>b\<in>set (incoming (proto_sp ?q)). b \<noteq> 0x06 \<and> b \<noteq> 0x15"
    by simp
  with send_packet_first_reply [of ?pkt ?q] frame
  have "send_packet ?pkt ?q =
      (Blocks, ?q\<lparr>proto_sp := \<lparr>written = written (proto_sp ?q) @ [[1, 0, 1, 0, 1, 7, 7]],
                               incoming = []\<rparr>\<rparr>)"
    by (simp only: sum.inject) blast
  then have second: "send_packet ?pkt ?q =
      (Blocks,
       \<lparr>proto_sp = \<lparr>written = [[1, 0, 1, 0, 1, 7, 7]], incoming = []\<rparr>, proto_crc_mode = None\<rparr>)"
    by simp
  from first second show ?thesis
    by (rule conjI)
qed

section \<open>Properties of the packet count\<close>

lemma bit_length_le: "bit_length n \<le> k \<longleftrightarrow> n < 2 ^ k"
proof (induction n arbitrary: k rule: bit_length.induct)
  case (1 n)
  show ?case
  proof (cases "n = 0")
    case True
    then show ?thesis by (simp add: bit_length.simps)
  next
    case False
    show ?thesis
    proof (cases k)
      case 0
      with False show ?thesis by (simp add: bit_length.simps [of n])
    next
      case (Suc k')
      have "bit_length (n div 2) \<le> k' \<longleftrightarrow> n div 2 < 2 ^ k'"
        using False by (rule "1.IH")
      moreover have "n div 2 < 2 ^ k' \<longleftrightarrow> n < 2 ^ Suc k'"
        by (simp add: less_mult_imp_div_less div_less_iff_less_mult mult.commute)
      ultimately show ?thesis
        using False Suc by (simp add: bit_length.simps [of n])
    qed
  qed
qed

lemma round_to_53_bits_exact: "n < 2 ^ 53 \<Longrightarrow> round_to_53_bits n = n"
  using bit_length_le [of n 53] by (simp add: round_to_53_bits_def)

lemma truediv_MAX_SIZE_exact:
  assumes "0 \<le> a" and "a < 2 ^ 53"
  shows "truediv_MAX_SIZE a = Inr (of_int a / 256)"
proof -
  have small: "nat \<bar>a\<bar> < 2 ^ 53"
    using assms by (simp add: nat_less_iff)
  have m: "round_to_53_bits (nat \<bar>a\<bar>) = nat \<bar>a\<bar>"
    using small by (rule round_to_53_bits_exact)
  have "(2::nat) ^ 53 \<le> 2 ^ 1032"
    by (rule power_increasing) simp_all
  with small have no_overflow: "\<not> (2::nat) ^ 1032 \<le> nat \<bar>a\<bar>"
    by (meson less_le_trans not_le)
  have val: "sgn a * int (nat \<bar>a\<bar>) = a"
    using assms(1) by (simp add: sgn_if)
  show ?thesis
    unfolding truediv_MAX_SIZE_def Let_def m val MAX_SIZE_def
    using no_overflow by (simp only: if_False of_int_numeral)
qed

lemma math_floor_div_256: "math_floor (of_int a / 256) = a div 256"
  using floor_divide_of_int_eq [of a 256, where ?'a = rat] by (simp add: math_floor_def)

lemma calc_num_required_packets_exact:
  assumes "0 \<le> len" and "len < 2 ^ 53"
  shows "calc_num_required_packets len = Inr ((len + 255) div 256)"
proof -
  define q r where "q = len div 256" and "r = len mod 256"
  have r: "0 \<le> r" "r < 256" and len: "len = r + 256 * q"
    by (simp_all add: q_def r_def)
  have A: "(r + 255 + 256 * q) div 256 = q + (r + 255) div 256"
    by (rule div_mult_self2) simp
  have B: "(r + 255) div 256 = (if r = 0 then 0 else 1)"
  proof (cases "r = 0")
    case True
    then show ?thesis by simp
  next
    case False
    with r have "r + 255 = (r - 1) + 256 * 1" and "0 \<le> r - 1" and "r - 1 < 256"
      by simp_all
    then have "(r + 255) div 256 = 1 + (r - 1) div 256"
      using div_mult_self2 [of 256 "r - 1" 1] by simp
    with \<open>0 \<le> r - 1\<close> \<open>r - 1 < 256\<close> False show ?thesis
      by (simp add: div_pos_pos_trivial)
  qed
  have C: "len + 255 = r + 255 + 256 * q"
    by (subst len) simp
  have "(len + 255) div 256 = q + (if r = 0 then 0 else 1)"
    by (simp only: C A B)
  then have "(len + 255) div 256 = (if r = 0 then q else q + 1)"
    by simp
  then have "(len + 255) div 256 = (if len mod 256 = 0 then len div 256 else len div 256 + 1)"
    by (simp only: q_def r_def)
  then show ?thesis
    by (simp add: calc_num_required_packets_def truediv_MAX_SIZE_exact [OF assms]
        math_floor_div_256 MAX_SIZE_def)
qed

lemma bit_length_eq:
  assumes "2 ^ k \<le> n" and "n < 2 ^ Suc k"
  shows "bit_length n = Suc k"
proof -
  have "bit_length n \<le> Suc k"
    using assms(2) by (simp only: bit_length_le)
  moreover have "\<not> bit_length n \<le> k"
    using assms(1) by (simp only: bit_length_le not_less)
  ultimately show ?thesis
    by simp
qed

lemma round_to_53_bits_example: "round_to_53_bits 9007199254741247 = 9007199254741248"
proof -
  have "bit_length 9007199254741247 = Suc 53"
    by (rule bit_length_eq) simp_all
  then show ?thesis
    by (simp add: round_to_53_bits_def)
qed

text \<open>
  Claim C3 says that the computed packet count is \<open>\<lceil>L / 256\<rceil>\<close> for every file length
  \<open>L \<ge> 0\<close>. The count is exact below \<open>2 ^ 53\<close> (lemma
  \<open>calc_num_required_packets_exact\<close>, which covers \<open>L = 0\<close> and \<open>L = 256\<close>), but the
  division is a floating-point one: at \<open>L = 2 ^ 53 + 255\<close> the quotient is rounded up to
  \<open>2 ^ 45 + 1\<close> before the floor is taken, and the code returns one packet more than the
  ceiling.
\<close>

theorem calc_num_required_packets_rounding:
  "calc_num_required_packets 9007199254741247 = Inr 35184372088834 \<and>
   \<lceil>(9007199254741247 :: rat) / 256\<rceil> = 35184372088833"
proof -
  have "truediv_MAX_SIZE 9007199254741247 = Inr (of_int 9007199254741248 / 256)"
    by (simp add: truediv_MAX_SIZE_def round_to_53_bits_example MAX_SIZE_def)
  then have "calc_num_required_packets 9007199254741247 = Inr 35184372088834"
    by (simp add: calc_num_required_packets_def MAX_SIZE_def math_floor_def)
  moreover have "\<lceil>(9007199254741247 :: rat) / 256\<rceil> = 35184372088833"
    using ceiling_divide_eq_div [of 9007199254741247 256, where ?'a = rat] by simp
  ultimately show ?thesis
    by simp
qed

section \<open>Runs of the transmitter's operations\<close>

lemma runs_and_then:
  assumes "runs op1 d a inc r1 ws1 inc1"
    and "r1 = Returns () \<Longrightarrow> runs op2 d a inc1 r2 ws2 inc2"
  shows "runs (and_then op1 op2) d a inc
           (if r1 = Returns () then r2 else r1)
           (if r1 = Returns () then ws1 @ ws2 else ws1)
           (if r1 = Returns () then inc2 else inc1)"
  unfolding runs_def
proof (intro allI impI)
  fix t :: BitStreamTransmitter
  assume t: "tx_data t = d \<and> tx_addr_int t = a \<and> incoming (proto_sp (tx_p t)) = inc"
  with assms(1) obtain t1 where t1: "op1 t = (r1, t1)" "tx_data t1 = d" "tx_addr_int t1 = a"
    "incoming (proto_sp (tx_p t1)) = inc1"
    "written (proto_sp (tx_p t1)) = written (proto_sp (tx_p t)) @ ws1"
    unfolding runs_def by blast
  show "\<exists>t'. and_then op1 op2 t = (if r1 = Returns () then r2 else r1, t') \<and>
          tx_data t' = d \<and> tx_addr_int t' = a \<and>
          incoming (proto_sp (tx_p t')) = (if r1 = Returns () then inc2 else inc1) \<and>
          written (proto_sp (tx_p t')) =
            written (proto_sp (tx_p t)) @ (if r1 = Returns () then ws1 @ ws2 else ws1)"
  proof (cases "r1 = Returns ()")
    case True
    with assms(2) t1 obtain t2 where "op2 t1 = (r2, t2)" "tx_data t2 = d" "tx_addr_int t2 = a"
      "incoming (proto_sp (tx_p t2)) = inc2"
      "written (proto_sp (tx_p t2)) = written (proto_sp (tx_p t1)) @ ws2"
      unfolding runs_def by blast
    with True t1 show ?thesis
      by (simp add: and_then_def)
  next
    case False
    with t1 show ?thesis
      by (cases r1) (simp_all add: and_then_def)
  qed
qed

lemma runs_send_packet_returns:
  assumes "inc = skipped @ x # rest" and "\<forall>b\<in>set skipped. b \<noteq> 0x06 \<and> b \<noteq> 0x15"
    and "x = 0x06 \<or> x = 0x15"
  shows "runs (on_protocol (send_packet packet)) d a inc (Returns ()) [packet_frame packet] rest"
  unfolding runs_def
proof (intro allI impI)
  fix t :: BitStreamTransmitter
  assume "tx_data t = d \<and> tx_addr_int t = a \<and> incoming (proto_sp (tx_p t)) = inc"
  then show "\<exists>t'. on_protocol (send_packet packet) t = (Returns (), t') \<and> tx_data t' = d \<and>
      tx_addr_int t' = a \<and> incoming (proto_sp (tx_p t')) = rest \<and>
      written (proto_sp (tx_p t')) = written (proto_sp (tx_p t)) @ [packet_frame packet]"
    using send_packet_returns [of "tx_p t" skipped x rest packet] assms
    by (simp add: on_protocol_def)
qed

lemma runs_send_packet_blocks:
  assumes "\<forall>b\<in>set inc. b \<noteq> 0x06 \<and> b \<noteq> 0x15"
  shows "runs (on_protocol (send_packet packet)) d a inc Blocks [packet_frame packet] []"
  unfolding runs_def
proof (intro allI impI)
  fix t :: BitStreamTransmitter
  assume "tx_data t = d \<and> tx_addr_int t = a \<and> incoming (proto_sp (tx_p t)) = inc"
  then show "\<exists>t'. on_protocol (send_packet packet) t = (Blocks, t') \<and> tx_data t' = d \<and>
      tx_addr_int t' = a \<and> incoming (proto_sp (tx_p t')) = [] \<and>
      written (proto_sp (tx_p t')) = written (proto_sp (tx_p t)) @ [packet_frame packet]"
    using send_packet_blocks [of "tx_p t" packet] assms
    by (simp add: on_protocol_def)
qed

lemma runs_send_packet:
  "\<exists>r inc'. runs (on_protocol (send_packet packet)) d a inc r [packet_frame packet] inc' \<and>
     (r = Returns () \<or> r = Blocks)"
proof (cases "\<exists>b\<in>set inc. b = 0x06 \<or> b = 0x15")
  case True
  then obtain skipped x rest where "inc = skipped @ x # rest"
    and "\<forall>b\<in>set skipped. \<not> (b = 0x06 \<or> b = 0x15)" and "x = 0x06 \<or> x = 0x15"
    using first_match_split [of inc "\<lambda>b. b = 0x06 \<or> b = 0x15"] by blast
  then have "runs (on_protocol (send_packet packet)) d a inc (Returns ()) [packet_frame packet] rest"
    by (intro runs_send_packet_returns [where skipped = skipped and x = x]) auto
  then show ?thesis by blast
next
  case False
  then have "runs (on_protocol (send_packet packet)) d a inc Blocks [packet_frame packet] []"
    by (intro runs_send_packet_blocks) auto
  then show ?thesis by blast
qed

lemma runs_start_returns:
  assumes "inc = skipped @ x # rest" and "\<forall>b\<in>set skipped. b \<noteq> 0x43 \<and> b \<noteq> 0x15"
    and "x = 0x43 \<or> x = 0x15"
  shows "runs tx_start_transmission d a inc (Returns ()) [[0x31]] rest"
  unfolding runs_def
proof (intro allI impI)
  fix t :: BitStreamTransmitter
  assume "tx_data t = d \<and> tx_addr_int t = a \<and> incoming (proto_sp (tx_p t)) = inc"
  then show "\<exists>t'. tx_start_transmission t = (Returns (), t') \<and> tx_data t' = d \<and>
      tx_addr_int t' = a \<and> incoming (proto_sp (tx_p t')) = rest \<and>
      written (proto_sp (tx_p t')) = written (proto_sp (tx_p t)) @ [[0x31]]"
    using start_transmission_returns [of "tx_p t" skipped x rest] assms
    by (simp add: tx_start_transmission_def on_protocol_def)
qed

lemma runs_start_blocks:
  assumes "\<forall>b\<in>set inc. b \<noteq> 0x43 \<and> b \<noteq> 0x15"
  shows "runs tx_start_transmission d a inc Blocks [[0x31]] []"
  unfolding runs_def
proof (intro allI impI)
  fix t :: BitStreamTransmitter
  assume "tx_data t = d \<and> tx_addr_int t = a \<and> incoming (proto_sp (tx_p t)) = inc"
  then show "\<exists>t'. tx_start_transmission t = (Blocks, t') \<and> tx_data t' = d \<and>
      tx_addr_int t' = a \<and> incoming (proto_sp (tx_p t')) = [] \<and>
      written (proto_sp (tx_p t')) = written (proto_sp (tx_p t)) @ [[0x31]]"
    using start_transmission_blocks [of "tx_p t"] assms
    by (simp add: tx_start_transmission_def on_protocol_def)
qed

lemma runs_start:
  "\<exists>r inc'. runs tx_start_transmission d a inc r [[0x31]] inc' \<and> (r = Returns () \<or> r = Blocks)"
proof (cases "\<exists>b\<in>set inc. b = 0x43 \<or> b = 0x15")
  case True
  then obtain skipped x rest where "inc = skipped @ x # rest"
    and "\<forall>b\<in>set skipped. \<not> (b = 0x43 \<or> b = 0x15)" and "x = 0x43 \<or> x = 0x15"
    using first_match_split [of inc "\<lambda>b. b = 0x43 \<or> b = 0x15"] by blast
  then have "runs tx_start_transmission d a inc (Returns ()) [[0x31]] rest"
    by (intro runs_start_returns [where skipped = skipped and x = x]) auto
  then show ?thesis by blast
next
  case False
  then have "runs tx_start_transmission d a inc Blocks [[0x31]] []"
    by (intro runs_start_blocks) auto
  then show ?thesis by blast
qed

lemma runs_stop_returns:
  assumes "inc = skipped @ 0x06 # rest" and "0x06 \<notin> set skipped"
  shows "runs tx_stop_transmission d a inc (Returns ()) [[0x04]] rest"
  unfolding runs_def
proof (intro allI impI)
  fix t :: BitStreamTransmitter
  assume "tx_data t = d \<and> tx_addr_int t = a \<and> incoming (proto_sp (tx_p t)) = inc"
  then show "\<exists>t'. tx_stop_transmission t = (Returns (), t') \<and> tx_data t' = d \<and>
      tx_addr_int t' = a \<and> incoming (proto_sp (tx_p t')) = rest \<and>
      written (proto_sp (tx_p t')) = written (proto_sp (tx_p t)) @ [[0x04]]"
    using stop_transmission_returns [of "tx_p t" skipped rest] assms
    by (simp add: tx_stop_transmission_def on_protocol_def)
qed

lemma runs_stop_blocks:
  assumes "0x06 \<notin> set inc"
  shows "runs tx_stop_transmission d a inc Blocks [[0x04]] []"
  unfolding runs_def
proof (intro allI impI)
  fix t :: BitStreamTransmitter
  assume "tx_data t = d \<and> tx_addr_int t = a \<and> incoming (proto_sp (tx_p t)) = inc"
  then show "\<exists>t'. tx_stop_transmission t = (Blocks, t') \<and> tx_data t' = d \<and>
      tx_addr_int t' = a \<and> incoming (proto_sp (tx_p t')) = [] \<and>
      written (proto_sp (tx_p t')) = written (proto_sp (tx_p t)) @ [[0x04]]"
    using stop_transmission_blocks [of "tx_p t"] assms
    by (simp add: tx_stop_transmission_def on_protocol_def)
qed

lemma runs_stop:
  "\<exists>r inc'. runs tx_stop_transmission d a inc r [[0x04]] inc' \<and> (r = Returns () \<or> r = Blocks)"
proof (cases "0x06 \<in> set inc")
  case True
  then obtain skipped rest where "inc = skipped @ 0x06 # rest" and "0x06 \<notin> set skipped"
    using split_list_first [of "0x06" inc] by blast
  then have "runs tx_stop_transmission d a inc (Returns ()) [[0x04]] rest"
    by (rule runs_stop_returns)
  then show ?thesis by blast
next
  case False
  then have "runs tx_stop_transmission d a inc Blocks [[0x04]] []"
    by (rule runs_stop_blocks)
  then show ?thesis by blast
qed

lemma runs_cong:
  assumes "runs op d a inc r ws inc'"
    and "\<And>t. tx_data t = d \<Longrightarrow> tx_addr_int t = a \<Longrightarrow> op' t = op t"
  shows "runs op' d a inc r ws inc'"
  using assms unfolding runs_def by simp

lemma Packet_init_Bytes:
  "Packet_init b (Bytes p) =
     Inr \<lparr>pkt_block_number = be_bytes 2 b, pkt_start_of_header = [0x01], pkt_payload = p\<rparr>"
  by (simp add: Packet_init_eq [of "Bytes p" p] be_bytes_2)

lemma packet_frame_wire_frame:
  "packet_frame \<lparr>pkt_block_number = be_bytes 2 b, pkt_start_of_header = [0x01], pkt_payload = p\<rparr>
     = wire_frame b p"
  by (simp add: packet_frame_def wire_frame_def word_of_int_mod_256)

lemma bitfile_packet_eq:
  assumes "calc_num_required_packets (int (length d)) = Inr n" and "tx_data t = d"
  shows "bitfile_packet t i =
     Inr \<lparr>pkt_block_number = be_bytes 2 (int i + 1), pkt_start_of_header = [0x01],
          pkt_payload = py_slice d (i * 256) ((i + 1) * 256)\<rparr>"
  using assms
  by (simp add: bitfile_packet_def num_required_packets_int_def MAX_SIZE_def Packet_init_Bytes)

lemma metadata_packet_eq:
  assumes "calc_num_required_packets (int (length d)) = Inr n" and "tx_data t = d"
    and "tx_addr_int t = a"
  shows "num_packets_and_address_packet t =
     Inr \<lparr>pkt_block_number = be_bytes 2 0, pkt_start_of_header = [0x01],
          pkt_payload = be_bytes 4 a @ be_bytes 4 n\<rparr>"
  using assms int_to_bytes_be_bytes [of a 4] int_to_bytes_be_bytes [of n 4]
  by (simp add: num_packets_and_address_packet_def address_def num_required_packets_def
      num_required_packets_int_def Packet_init_Bytes)

lemma send_bitfile_packet_eq:
  assumes "calc_num_required_packets (int (length d)) = Inr n" and "tx_data t = d"
  shows "send_bitfile_packet i t =
     on_protocol (send_packet \<lparr>pkt_block_number = be_bytes 2 (int i + 1),
        pkt_start_of_header = [0x01],
        pkt_payload = py_slice d (i * 256) ((i + 1) * 256)\<rparr>) t"
  by (simp only: send_bitfile_packet_def bitfile_packet_eq [OF assms] sum.case)

lemma send_num_packets_and_address_eq:
  assumes "calc_num_required_packets (int (length d)) = Inr n" and "tx_data t = d"
    and "tx_addr_int t = a"
  shows "send_num_packets_and_address t =
     on_protocol (send_packet \<lparr>pkt_block_number = be_bytes 2 0, pkt_start_of_header = [0x01],
          pkt_payload = be_bytes 4 a @ be_bytes 4 n\<rparr>) t"
  by (simp only: send_num_packets_and_address_def metadata_packet_eq [OF assms] sum.case)

lemma body_frame_packet:
  "packet_frame \<lparr>pkt_block_number = be_bytes 2 (int i + 1), pkt_start_of_header = [0x01],
          pkt_payload = py_slice d (i * 256) ((i + 1) * 256)\<rparr> = body_frame d i"
  by (simp only: packet_frame_wire_frame body_frame_def)

lemma metadata_frame_packet:
  "packet_frame \<lparr>pkt_block_number = be_bytes 2 0, pkt_start_of_header = [0x01],
          pkt_payload = be_bytes 4 a @ be_bytes 4 n\<rparr> = metadata_frame a n"
  by (simp only: packet_frame_wire_frame metadata_frame_def)

lemma runs_send_bitfile_packet:
  assumes "calc_num_required_packets (int (length d)) = Inr n"
  shows "\<exists>r inc'. runs (send_bitfile_packet i) d a inc r [body_frame d i] inc' \<and>
     (r = Returns () \<or> r = Blocks)"
proof -
  let ?packet = "\<lparr>pkt_block_number = be_bytes 2 (int i + 1), pkt_start_of_header = [0x01],
          pkt_payload = py_slice d (i * 256) ((i + 1) * 256)\<rparr>"
  obtain r inc' where run: "runs (on_protocol (send_packet ?packet)) d a inc r [body_frame d i] inc'"
    and r: "r = Returns () \<or> r = Blocks"
    using runs_send_packet [of ?packet d a inc] unfolding body_frame_packet by blast
  have "runs (send_bitfile_packet i) d a inc r [body_frame d i] inc'"
    using run by (rule runs_cong) (rule send_bitfile_packet_eq [OF assms])
  with r show ?thesis by blast
qed

lemma runs_send_bitfile_packet_returns:
  assumes "calc_num_required_packets (int (length d)) = Inr n" and "x = 0x06 \<or> x = 0x15"
  shows "runs (send_bitfile_packet i) d a (x # rest) (Returns ()) [body_frame d i] rest"
proof -
  let ?packet = "\<lparr>pkt_block_number = be_bytes 2 (int i + 1), pkt_start_of_header = [0x01],
          pkt_payload = py_slice d (i * 256) ((i + 1) * 256)\<rparr>"
  have "runs (on_protocol (send_packet ?packet)) d a (x # rest) (Returns ()) [packet_frame ?packet] rest"
    using assms(2) by (intro runs_send_packet_returns [where skipped = "[]" and x = x]) simp_all
  then have "runs (on_protocol (send_packet ?packet)) d a (x # rest) (Returns ()) [body_frame d i] rest"
    unfolding body_frame_packet .
  then show ?thesis
    by (rule runs_cong) (rule send_bitfile_packet_eq [OF assms(1)])
qed

lemma runs_metadata:
  assumes "calc_num_required_packets (int (length d)) = Inr n"
  shows "\<exists>r inc'. runs send_num_packets_and_address d a inc r [metadata_frame a n] inc' \<and>
     (r = Returns () \<or> r = Blocks)"
proof -
  let ?packet = "\<lparr>pkt_block_number = be_bytes 2 0, pkt_start_of_header = [0x01],
          pkt_payload = be_bytes 4 a @ be_bytes 4 n\<rparr>"
  obtain r inc' where run: "runs (on_protocol (send_packet ?packet)) d a inc r [metadata_frame a n] inc'"
    and r: "r = Returns () \<or> r = Blocks"
    using runs_send_packet [of ?packet d a inc] unfolding metadata_frame_packet by blast
  have "runs send_num_packets_and_address d a inc r [metadata_frame a n] inc'"
    using run by (rule runs_cong) (rule send_num_packets_and_address_eq [OF assms])
  with r show ?thesis by blast
qed


lemma performs_and_then:
  assumes "performs op1 d a W1" and "performs op2 d a W2"
  shows "performs (and_then op1 op2) d a (W1 @ W2)"
  unfolding performs_def
proof
  fix inc
  obtain r1 ws1 inc1 where one: "runs op1 d a inc r1 ws1 inc1" "r1 = Returns () \<longrightarrow> ws1 = W1"
    using assms(1) unfolding performs_def by blast
  obtain r2 ws2 inc2 where two: "runs op2 d a inc1 r2 ws2 inc2" "r2 = Returns () \<longrightarrow> ws2 = W2"
    using assms(2) unfolding performs_def by blast
  let ?r = "if r1 = Returns () then r2 else r1"
  let ?ws = "if r1 = Returns () then ws1 @ ws2 else ws1"
  let ?inc = "if r1 = Returns () then inc2 else inc1"
  have "runs (and_then op1 op2) d a inc ?r ?ws ?inc"
    using one(1) two(1) by (rule runs_and_then)
  moreover have "?r = Returns () \<longrightarrow> ?ws = W1 @ W2"
    using one(2) two(2) by simp
  ultimately show "\<exists>r ws inc'. runs (and_then op1 op2) d a inc r ws inc' \<and>
      (r = Returns () \<longrightarrow> ws = W1 @ W2)"
    by blast
qed

lemma performs_cong:
  assumes "performs op d a W"
    and "\<And>t. tx_data t = d \<Longrightarrow> tx_addr_int t = a \<Longrightarrow> op' t = op t"
  shows "performs op' d a W"
  using assms runs_cong [of op d a _ _ _ _ op'] unfolding performs_def by blast

lemma performs_start: "performs tx_start_transmission d a [[0x31]]"
  unfolding performs_def using runs_start by blast

lemma performs_stop: "performs tx_stop_transmission d a [[0x04]]"
  unfolding performs_def using runs_stop by blast

lemma performs_metadata:
  assumes "calc_num_required_packets (int (length d)) = Inr n"
  shows "performs send_num_packets_and_address d a [metadata_frame a n]"
  unfolding performs_def using runs_metadata [OF assms] by blast

lemma performs_packet:
  assumes "calc_num_required_packets (int (length d)) = Inr n"
  shows "performs (send_bitfile_packet i) d a [body_frame d i]"
  unfolding performs_def using runs_send_bitfile_packet [OF assms] by blast

lemma performs_loop:
  assumes "calc_num_required_packets (int (length d)) = Inr n"
  shows "performs (send_bitfile_loop ids) d a (map (body_frame d) ids)"
proof (induction ids)
  case Nil
  have "runs (send_bitfile_loop []) d a inc (Returns ()) [] inc" for inc
    by (simp add: runs_def)
  then show ?case
    unfolding performs_def by auto
next
  case (Cons i ids)
  have "performs (and_then (send_bitfile_packet i) (send_bitfile_loop ids)) d a
          ([body_frame d i] @ map (body_frame d) ids)"
    using performs_packet [OF assms] Cons.IH by (rule performs_and_then)
  then have "performs (and_then (send_bitfile_packet i) (send_bitfile_loop ids)) d a
          (map (body_frame d) (i # ids))"
    by simp
  then show ?case
    by (rule performs_cong) simp
qed

lemma performs_content:
  assumes "calc_num_required_packets (int (length d)) = Inr n"
  shows "performs send_bitfile_content d a (map (body_frame d) [0..<nat n])"
  using performs_loop [OF assms, of "[0..<nat n]" a]
  by (rule performs_cong) (simp add: send_bitfile_content_def num_required_packets_int_def assms)


lemma performs_after_count:
  assumes "calc_num_required_packets (int (length d)) = Inr n"
  shows "performs
           (\<lambda>t1. case num_required_packets_int t1 of
                    Inl e \<Rightarrow> (Raises e, t1)
                  | Inr _ \<Rightarrow>
                      and_then send_num_packets_and_address
                        (and_then send_bitfile_content tx_stop_transmission) t1)
           d a ([metadata_frame a n] @ map (body_frame d) [0..<nat n] @ [[0x04]])"
proof -
  have "performs (and_then send_num_packets_and_address
                    (and_then send_bitfile_content tx_stop_transmission))
          d a ([metadata_frame a n] @ map (body_frame d) [0..<nat n] @ [[0x04]])"
    by (intro performs_and_then performs_metadata [OF assms] performs_content [OF assms]
        performs_stop)
  then show ?thesis
    by (rule performs_cong) (simp add: num_required_packets_int_def assms)
qed

lemma runs_after_count_raises:
  assumes "calc_num_required_packets (int (length d)) = Inl e"
  shows "runs
           (\<lambda>t1. case num_required_packets_int t1 of
                    Inl e \<Rightarrow> (Raises e, t1)
                  | Inr _ \<Rightarrow>
                      and_then send_num_packets_and_address
                        (and_then send_bitfile_content tx_stop_transmission) t1)
           d a inc (Raises e) [] inc"
  using assms by (simp add: runs_def num_required_packets_int_def)

lemma upload_bitstream_to_runs:
  "\<exists>r ws inc'. runs (upload_bitstream_to file addr) file addr inc r ws inc' \<and>
     (r = Returns () \<longrightarrow>
        (\<exists>n. calc_num_required_packets (int (length file)) = Inr n \<and>
             ws = spec_upload_writes file addr n))"
proof -
  let ?rest = "\<lambda>t1. case num_required_packets_int t1 of
                    Inl e \<Rightarrow> (Raises e, t1)
                  | Inr _ \<Rightarrow>
                      and_then send_num_packets_and_address
                        (and_then send_bitfile_content tx_stop_transmission) t1"
  have up: "upload_bitstream_to file addr t = and_then tx_start_transmission ?rest t"
    if "tx_data t = file" and "tx_addr_int t = addr" for t
  proof -
    have "t\<lparr>tx_data := file, tx_addr_int := addr\<rparr> = t"
      using that by simp
    then show ?thesis
      by (simp only: upload_bitstream_to_def)
  qed
  show ?thesis
  proof (cases "calc_num_required_packets (int (length file))")
    case (Inr n)
    have "performs (and_then tx_start_transmission ?rest) file addr
            ([[0x31]] @ [metadata_frame addr n] @ map (body_frame file) [0..<nat n] @ [[0x04]])"
      by (intro performs_and_then performs_start performs_after_count [OF Inr])
    then have "performs (and_then tx_start_transmission ?rest) file addr
            (spec_upload_writes file addr n)"
      by (simp add: spec_upload_writes_def)
    then have "performs (upload_bitstream_to file addr) file addr (spec_upload_writes file addr n)"
      by (rule performs_cong) (rule up)
    with Inr show ?thesis
      unfolding performs_def by blast
  next
    case (Inl e)
    obtain r1 inc1 where start: "runs tx_start_transmission file addr inc r1 [[0x31]] inc1"
      using runs_start by blast
    have "runs (and_then tx_start_transmission ?rest) file addr inc
            (if r1 = Returns () then Raises e else r1)
            (if r1 = Returns () then [[0x31]] @ [] else [[0x31]])
            (if r1 = Returns () then inc1 else inc1)"
      using start runs_after_count_raises [OF Inl] by (rule runs_and_then)
    then have "runs (upload_bitstream_to file addr) file addr inc
            (if r1 = Returns () then Raises e else r1)
            (if r1 = Returns () then [[0x31]] @ [] else [[0x31]])
            (if r1 = Returns () then inc1 else inc1)"
      by (rule runs_cong) (rule up)
    moreover have "(if r1 = Returns () then Raises e else r1) \<noteq> Returns ()"
      by simp
    ultimately show ?thesis
      by blast
  qed
qed

lemma runs_and_then_returns:
  assumes "runs op1 d a inc (Returns ()) ws1 inc1" and "runs op2 d a inc1 r ws2 inc2"
  shows "runs (and_then op1 op2) d a inc r (ws1 @ ws2) inc2"
  using runs_and_then [OF assms(1), of op2 r ws2 inc2] assms(2) by simp

lemma runs_and_then_blocks:
  assumes "runs op1 d a inc Blocks ws1 inc1"
  shows "runs (and_then op1 op2) d a inc Blocks ws1 inc1"
  using runs_and_then [OF assms, of op2 Blocks "[]" inc1] by simp

lemma runs_send_bitfile_packet_blocks:
  assumes "calc_num_required_packets (int (length d)) = Inr n"
  shows "runs (send_bitfile_packet i) d a [] Blocks [body_frame d i] []"
proof -
  let ?packet = "\<lparr>pkt_block_number = be_bytes 2 (int i + 1), pkt_start_of_header = [0x01],
          pkt_payload = py_slice d (i * 256) ((i + 1) * 256)\<rparr>"
  have "runs (on_protocol (send_packet ?packet)) d a [] Blocks [packet_frame ?packet] []"
    by (rule runs_send_packet_blocks) simp
  then have "runs (on_protocol (send_packet ?packet)) d a [] Blocks [body_frame d i] []"
    unfolding body_frame_packet .
  then show ?thesis
    by (rule runs_cong) (rule send_bitfile_packet_eq [OF assms])
qed


lemma runs_loop_eq:
  "runs (send_bitfile_loop (i # ids)) d a inc r ws inc' \<longleftrightarrow>
   runs (and_then (send_bitfile_packet i) (send_bitfile_loop ids)) d a inc r ws inc'"
  by (simp add: runs_def)


lemma runs_loop_blocks:
  assumes "calc_num_required_packets (int (length d)) = Inr n"
  shows "length acks < length ids \<Longrightarrow> \<forall>x\<in>set acks. x = 0x06 \<or> x = 0x15 \<Longrightarrow>
     runs (send_bitfile_loop ids) d a acks Blocks
       (map (body_frame d) (take (Suc (length acks)) ids)) []"
proof (induction ids arbitrary: acks)
  case Nil
  then show ?case by simp
next
  case (Cons i ids)
  show ?case
  proof (cases acks)
    case Nil
    have "runs (and_then (send_bitfile_packet i) (send_bitfile_loop ids)) d a [] Blocks
        [body_frame d i] []"
      using runs_send_bitfile_packet_blocks [OF assms] by (rule runs_and_then_blocks)
    then show ?thesis
      by (simp add: runs_loop_eq Nil)
  next
    case (Cons x acks')
    have "runs (send_bitfile_packet i) d a (x # acks') (Returns ()) [body_frame d i] acks'"
      using Cons.prems Cons by (intro runs_send_bitfile_packet_returns [OF assms]) simp
    moreover have "runs (send_bitfile_loop ids) d a acks' Blocks
        (map (body_frame d) (take (Suc (length acks')) ids)) []"
      using Cons.prems Cons by (intro Cons.IH) simp_all
    ultimately have "runs (and_then (send_bitfile_packet i) (send_bitfile_loop ids)) d a
        (x # acks') Blocks
        ([body_frame d i] @ map (body_frame d) (take (Suc (length acks')) ids)) []"
      by (rule runs_and_then_returns)
    then show ?thesis
      by (simp add: runs_loop_eq Cons)
  qed
qed

lemma runs_content_eq:
  assumes "calc_num_required_packets (int (length d)) = Inr n"
  shows "runs send_bitfile_content d a inc r ws inc' \<longleftrightarrow>
         runs (send_bitfile_loop [0..<nat n]) d a inc r ws inc'"
  using assms by (simp add: runs_def send_bitfile_content_def num_required_packets_int_def)







section \<open>Properties of the upload\<close>

lemma upload_from_any_state:
  assumes "runs (upload_bitstream_to file addr) file addr inc r ws inc'"
    and "incoming (proto_sp (tx_p t)) = inc"
  shows "\<exists>t'. upload_bitstream_to file addr t = (r, t') \<and>
           incoming (proto_sp (tx_p t')) = inc' \<and>
           written (proto_sp (tx_p t')) = written (proto_sp (tx_p t)) @ ws"
proof -
  let ?t0 = "t\<lparr>tx_data := file, tx_addr_int := addr\<rparr>"
  have same: "upload_bitstream_to file addr t = upload_bitstream_to file addr ?t0"
    by (simp add: upload_bitstream_to_def)
  have "tx_data ?t0 = file \<and> tx_addr_int ?t0 = addr \<and> incoming (proto_sp (tx_p ?t0)) = inc"
    using assms(2) by simp
  with assms(1) obtain t' where "upload_bitstream_to file addr ?t0 = (r, t')"
    and "incoming (proto_sp (tx_p t')) = inc'"
    and "written (proto_sp (tx_p t')) = written (proto_sp (tx_p ?t0)) @ ws"
    unfolding runs_def by blast
  then show ?thesis
    using same by simp
qed

text \<open>
  Claim C10. The outcome of an upload, the writes it adds to the transport and the replies
  it leaves unread are fixed by the file contents, the target address and the reply bytes
  alone: every transmitter that is given the same three, whatever file, address and
  handshake mode an earlier upload left in it and whatever was written before, ends with the
  same outcome, the same added writes and the same unread replies.
\<close>

theorem upload_output_determined:
  "\<exists>r ws inc'. \<forall>t. incoming (proto_sp (tx_p t)) = replies \<longrightarrow>
     (\<exists>t'. upload_bitstream_to file addr t = (r, t') \<and>
           written (proto_sp (tx_p t')) = written (proto_sp (tx_p t)) @ ws \<and>
           incoming (proto_sp (tx_p t')) = inc')"
proof -
  obtain r ws inc' where "runs (upload_bitstream_to file addr) file addr replies r ws inc'"
    using upload_bitstream_to_runs [of "file" addr replies] by blast
  then have "\<exists>t'. upload_bitstream_to file addr t = (r, t') \<and>
           written (proto_sp (tx_p t')) = written (proto_sp (tx_p t)) @ ws \<and>
           incoming (proto_sp (tx_p t')) = inc'"
    if "incoming (proto_sp (tx_p t)) = replies" for t
    using upload_from_any_state [OF _ that] by blast
  then show ?thesis
    by blast
qed

theorem upload_output_determined_witness:
  "\<exists>r ws inc'.
     (\<exists>t'. upload_bitstream_to [1, 2, 3] 3
             \<lparr>tx_p = \<lparr>proto_sp = \<lparr>written = [], incoming = [0x43, 0x15, 0x06, 0x06]\<rparr>,
                      proto_crc_mode = None\<rparr>,
              tx_data = [], tx_addr_int = 0\<rparr> = (r, t') \<and>
           written (proto_sp (tx_p t')) = [] @ ws \<and> incoming (proto_sp (tx_p t')) = inc') \<and>
     (\<exists>t'. upload_bitstream_to [1, 2, 3] 3
             \<lparr>tx_p = \<lparr>proto_sp = \<lparr>written = [[0x31], [0x04]],
                                 incoming = [0x43, 0x15, 0x06, 0x06]\<rparr>,
                      proto_crc_mode = Some [0x15]\<rparr>,
              tx_data = [9, 9], tx_addr_int = 7\<rparr> = (r, t') \<and>
           written (proto_sp (tx_p t')) = [[0x31], [0x04]] @ ws \<and>
           incoming (proto_sp (tx_p t')) = inc')"
proof -
  let ?t1 = "\<lparr>tx_p = \<lparr>proto_sp = \<lparr>written = [], incoming = [0x43, 0x15, 0x06, 0x06]\<rparr>,
                      proto_crc_mode = None\<rparr>,
              tx_data = [], tx_addr_int = 0\<rparr>"
  let ?t2 = "\<lparr>tx_p = \<lparr>proto_sp = \<lparr>written = [[0x31], [0x04]],
                                 incoming = [0x43, 0x15, 0x06, 0x06]\<rparr>,
                      proto_crc_mode = Some [0x15]\<rparr>,
              tx_data = [9, 9], tx_addr_int = 7\<rparr>"
  obtain r ws inc' where all: "\<forall>t. incoming (proto_sp (tx_p t)) = [0x43, 0x15, 0x06, 0x06] \<longrightarrow>
     (\<exists>t'. upload_bitstream_to [1, 2, 3] 3 t = (r, t') \<and>
           written (proto_sp (tx_p t')) = written (proto_sp (tx_p t)) @ ws \<and>
           incoming (proto_sp (tx_p t')) = inc')"
    using upload_output_determined [of "[0x43, 0x15, 0x06, 0x06]" "[1, 2, 3]" 3] by blast
  have "incoming (proto_sp (tx_p ?t1)) = [0x43, 0x15, 0x06, 0x06]"
    by simp
  with all have one: "\<exists>t'. upload_bitstream_to [1, 2, 3] 3 ?t1 = (r, t') \<and>
           written (proto_sp (tx_p t')) = written (proto_sp (tx_p ?t1)) @ ws \<and>
           incoming (proto_sp (tx_p t')) = inc'"
    by blast
  have "incoming (proto_sp (tx_p ?t2)) = [0x43, 0x15, 0x06, 0x06]"
    by simp
  with all have two: "\<exists>t'. upload_bitstream_to [1, 2, 3] 3 ?t2 = (r, t') \<and>
           written (proto_sp (tx_p t')) = written (proto_sp (tx_p ?t2)) @ ws \<and>
           incoming (proto_sp (tx_p t')) = inc'"
    by blast
  from one two show ?thesis
    by (simp only: BitStreamTransmitter.select_convs BitStreamTransferProtocol.select_convs
        serial_port.select_convs) blast
qed









section \<open>Properties of the metadata packet and of the body packets\<close>

lemma big_endian_value_be_bytes: "int (big_endian_value (be_bytes w v)) = v mod 2 ^ (8 * w)"
  using big_endian_value_shifts [of v w] by (simp only: shifted_bytes_eq_be_bytes)

lemma length_be_bytes: "length (be_bytes w v) = w"
  by (induction w arbitrary: v) simp_all





lemma py_slice_chunk: "py_slice xs (i * 256) ((i + 1) * 256) = take 256 (drop (i * 256) xs)"
  by (simp add: py_slice_def)

lemma concat_chunks:
  "concat (map (\<lambda>i. py_slice xs (i * 256) ((i + 1) * 256)) [0..<n]) = take (n * 256) xs"
proof (induction n)
  case 0
  show ?case by simp
next
  case (Suc n)
  have "take (n * 256 + 256) xs = take (n * 256) xs @ take 256 (drop (n * 256) xs)"
    by (rule take_add)
  with Suc show ?case
    by (simp add: py_slice_def add.commute)
qed

lemma count_covers: "length xs \<le> ((length xs + 255) div 256) * 256"
proof -
  have "length xs + 255 = ((length xs + 255) div 256) * 256 + (length xs + 255) mod 256"
    by simp
  moreover have "(length xs + 255) mod 256 < 256"
    by simp
  ultimately show ?thesis
    by linarith
qed

lemma num_required_packets_int_exact:
  assumes "tx_data t = file" and "length file < 2 ^ 53"
  shows "num_required_packets_int t = Inr (int ((length file + 255) div 256))"
proof -
  have "int (length file) < 2 ^ 53"
    using assms(2) by (simp add: nat_less_iff [symmetric])
  then have "calc_num_required_packets (int (length file)) =
      Inr ((int (length file) + 255) div 256)"
    by (intro calc_num_required_packets_exact) simp_all
  moreover have "(int (length file) + 255) div 256 = int ((length file + 255) div 256)"
    by (simp add: zdiv_int)
  ultimately show ?thesis
    using assms(1) by (simp add: num_required_packets_int_def)
qed

lemma block_number_value:
  "big_endian_value (be_bytes 2 (int i + 1)) = (i + 1) mod 65536"
proof -
  have "int (big_endian_value (be_bytes 2 (int i + 1))) = (int i + 1) mod 2 ^ 16"
    using big_endian_value_be_bytes [of 2 "int i + 1"] by simp
  also have "\<dots> = int ((i + 1) mod 65536)"
    by (simp add: zmod_int add.commute)
  finally show ?thesis
    by (simp only: of_nat_eq_iff)
qed

lemma send_bitfile_content_writes:
  assumes "calc_num_required_packets (int (length (tx_data t))) = Inr n"
    and "send_bitfile_content t = (Returns (), t')"
  shows "written (proto_sp (tx_p t')) =
           written (proto_sp (tx_p t)) @ map (body_frame (tx_data t)) [0..<nat n]"
proof -
  obtain r ws inc' where "runs send_bitfile_content (tx_data t) (tx_addr_int t)
      (incoming (proto_sp (tx_p t))) r ws inc'"
    and fin: "r = Returns () \<longrightarrow> ws = map (body_frame (tx_data t)) [0..<nat n]"
    using performs_content [OF assms(1), of "tx_addr_int t"] unfolding performs_def by blast
  then obtain t0 where "send_bitfile_content t = (r, t0)"
    and "written (proto_sp (tx_p t0)) = written (proto_sp (tx_p t)) @ ws"
    unfolding runs_def by blast
  with assms(2) fin show ?thesis
    by simp
qed

lemma send_bitfile_content_blocks:
  assumes "calc_num_required_packets (int (length (tx_data t))) = Inr n"
    and "length (incoming (proto_sp (tx_p t))) < nat n"
    and "\<forall>x\<in>set (incoming (proto_sp (tx_p t))). x = 0x06 \<or> x = 0x15"
  shows "\<exists>t'. send_bitfile_content t = (Blocks, t') \<and>
           written (proto_sp (tx_p t')) =
             written (proto_sp (tx_p t)) @
             map (body_frame (tx_data t)) [0..<Suc (length (incoming (proto_sp (tx_p t))))]"
proof -
  let ?acks = "incoming (proto_sp (tx_p t))"
  have "runs (send_bitfile_loop [0..<nat n]) (tx_data t) (tx_addr_int t) ?acks Blocks
       (map (body_frame (tx_data t)) (take (Suc (length ?acks)) [0..<nat n])) []"
    using assms(2,3) by (intro runs_loop_blocks [OF assms(1)]) simp_all
  then have "runs send_bitfile_content (tx_data t) (tx_addr_int t) ?acks Blocks
       (map (body_frame (tx_data t)) (take (Suc (length ?acks)) [0..<nat n])) []"
    by (simp only: runs_content_eq [OF assms(1)])
  moreover have "take (Suc (length ?acks)) [0..<nat n] = [0..<Suc (length ?acks)]"
    using assms(2) by (simp only: take_upt add_0 Suc_leI)
  ultimately show ?thesis
    unfolding runs_def by auto
qed

text \<open>
  Claim C2 says that the body packets carry the block ids \<open>1, \<dots>, packet_count\<close>, for a file
  of any length. The block id is stored in two bytes, so the packet built for the identifier
  \<open>i\<close> carries \<open>i mod 2 ^ 16\<close>, which differs from \<open>i\<close> from the 65536th packet on
  (the counterexample follows the witness below). As amended, for a file shorter than \<open>2 ^ 53\<close> bytes, where
  the packet count is exactly \<open>\<lceil>length / 256\<rceil>\<close>: the loop builds one packet for each of the
  identifiers \<open>1, \<dots>, packet_count\<close> and sends them in increasing order; the \<open>i\<close>-th
  packet carries the two-byte encoding of \<open>i mod 2 ^ 16\<close> and the payload
  \<open>file[(i-1)*256 : i*256]\<close>, of at most 256 bytes; and the payloads in order make up the
  file. When the acknowledgements run out the loop blocks after the frames sent so far.
\<close>

theorem body_packets_chunking:
  assumes "tx_data t = file" and "length file < 2 ^ 53"
  shows "\<exists>n. num_required_packets_int t = Inr (int n) \<and> n = (length file + 255) div 256 \<and>
     (\<forall>i<n. \<exists>packet. bitfile_packet t i = Inr packet \<and>
          pkt_payload packet = py_slice file (i * 256) ((i + 1) * 256) \<and>
          length (pkt_payload packet) \<le> 256 \<and>
          length (pkt_block_number packet) = 2 \<and>
          big_endian_value (pkt_block_number packet) = (i + 1) mod 65536 \<and>
          as_bytearray packet = Inr (body_frame file i)) \<and>
     concat (map (\<lambda>i. py_slice file (i * 256) ((i + 1) * 256)) [0..<n]) = file \<and>
     (\<forall>t'. send_bitfile_content t = (Returns (), t') \<longrightarrow>
        written (proto_sp (tx_p t')) =
          written (proto_sp (tx_p t)) @ map (body_frame file) [0..<n]) \<and>
     (length (incoming (proto_sp (tx_p t))) < n \<and>
      (\<forall>x\<in>set (incoming (proto_sp (tx_p t))). x = 0x06 \<or> x = 0x15) \<longrightarrow>
        (\<exists>t'. send_bitfile_content t = (Blocks, t') \<and>
           written (proto_sp (tx_p t')) =
             written (proto_sp (tx_p t)) @
             map (body_frame file) [0..<Suc (length (incoming (proto_sp (tx_p t))))]))"
proof -
  define n where "n = (length file + 255) div 256"
  have count: "num_required_packets_int t = Inr (int n)"
    unfolding n_def using assms by (rule num_required_packets_int_exact)
  then have calc: "calc_num_required_packets (int (length (tx_data t))) = Inr (int n)"
    by (simp only: num_required_packets_int_def)
  then have calc': "calc_num_required_packets (int (length file)) = Inr (int n)"
    by (simp only: assms(1))
  have packets: "\<exists>packet. bitfile_packet t i = Inr packet \<and>
          pkt_payload packet = py_slice file (i * 256) ((i + 1) * 256) \<and>
          length (pkt_payload packet) \<le> 256 \<and>
          length (pkt_block_number packet) = 2 \<and>
          big_endian_value (pkt_block_number packet) = (i + 1) mod 65536 \<and>
          as_bytearray packet = Inr (body_frame file i)" for i
  proof -
    let ?packet = "\<lparr>pkt_block_number = be_bytes 2 (int i + 1), pkt_start_of_header = [0x01],
          pkt_payload = py_slice file (i * 256) ((i + 1) * 256)\<rparr>"
    have "bitfile_packet t i = Inr ?packet"
      using calc' assms(1) by (rule bitfile_packet_eq)
    moreover have "length (pkt_payload ?packet) \<le> 256"
      by (simp add: py_slice_def)
    moreover have "length (pkt_block_number ?packet) = 2"
      by (simp add: length_be_bytes)
    moreover have "big_endian_value (pkt_block_number ?packet) = (i + 1) mod 65536"
      by (simp add: block_number_value)
    moreover have "as_bytearray ?packet = Inr (body_frame file i)"
      by (simp only: as_bytearray_packet_frame body_frame_packet)
    ultimately show ?thesis
      by (intro exI [of _ ?packet]) simp
  qed
  have "length file \<le> n * 256"
    unfolding n_def by (rule count_covers)
  then have "take (n * 256) file = file"
    by (rule take_all)
  then have whole: "concat (map (\<lambda>i. py_slice file (i * 256) ((i + 1) * 256)) [0..<n]) = file"
    by (simp only: concat_chunks)
  have sent: "\<forall>t'. send_bitfile_content t = (Returns (), t') \<longrightarrow>
        written (proto_sp (tx_p t')) =
          written (proto_sp (tx_p t)) @ map (body_frame file) [0..<n]"
    using send_bitfile_content_writes [OF calc] assms(1) by simp
  have blocked: "\<exists>t'. send_bitfile_content t = (Blocks, t') \<and>
           written (proto_sp (tx_p t')) =
             written (proto_sp (tx_p t)) @
             map (body_frame file) [0..<Suc (length (incoming (proto_sp (tx_p t))))]"
    if "length (incoming (proto_sp (tx_p t))) < n \<and>
      (\<forall>x\<in>set (incoming (proto_sp (tx_p t))). x = 0x06 \<or> x = 0x15)"
    using send_bitfile_content_blocks [OF calc] that assms(1) by simp
  from count packets whole sent blocked show ?thesis
    unfolding n_def by blast
qed

theorem body_packets_chunking_witness:
  "num_required_packets_int
     \<lparr>tx_p = Protocol_init \<lparr>written = [], incoming = [0x06]\<rparr>,
      tx_data = replicate 600 7, tx_addr_int = 3\<rparr> = Inr 3 \<and>
   (\<exists>packet. bitfile_packet
       \<lparr>tx_p = Protocol_init \<lparr>written = [], incoming = [0x06]\<rparr>,
        tx_data = replicate 600 7, tx_addr_int = 3\<rparr> 2 = Inr packet \<and>
      pkt_payload packet = replicate 88 7 \<and>
      big_endian_value (pkt_block_number packet) = 3) \<and>
   concat (map (\<lambda>i. py_slice (replicate 600 (7 :: byte)) (i * 256) ((i + 1) * 256)) [0..<3]) =
     replicate 600 7 \<and>
   (\<exists>t'. send_bitfile_content
       \<lparr>tx_p = Protocol_init \<lparr>written = [], incoming = [0x06]\<rparr>,
        tx_data = replicate 600 7, tx_addr_int = 3\<rparr> = (Blocks, t') \<and>
      written (proto_sp (tx_p t')) =
        [body_frame (replicate 600 7) 0, body_frame (replicate 600 7) 1])"
proof -
  let ?t = "\<lparr>tx_p = Protocol_init \<lparr>written = [], incoming = [0x06]\<rparr>,
      tx_data = replicate 600 (7 :: byte), tx_addr_int = 3\<rparr>"
  have "tx_data ?t = replicate 600 7" and "length (replicate 600 (7 :: byte)) < 2 ^ 53"
    by simp_all
  from body_packets_chunking [OF this]
  obtain n where n: "num_required_packets_int ?t = Inr (int n)"
    "n = (length (replicate 600 (7 :: byte)) + 255) div 256"
    and packets: "\<forall>i<n. \<exists>packet. bitfile_packet ?t i = Inr packet \<and>
          pkt_payload packet = py_slice (replicate 600 7) (i * 256) ((i + 1) * 256) \<and>
          length (pkt_payload packet) \<le> 256 \<and>
          length (pkt_block_number packet) = 2 \<and>
          big_endian_value (pkt_block_number packet) = (i + 1) mod 65536 \<and>
          as_bytearray packet = Inr (body_frame (replicate 600 7) i)"
    and whole: "concat (map (\<lambda>i. py_slice (replicate 600 (7 :: byte)) (i * 256) ((i + 1) * 256))
        [0..<n]) = replicate 600 7"
    and blocked: "length (incoming (proto_sp (tx_p ?t))) < n \<and>
      (\<forall>x\<in>set (incoming (proto_sp (tx_p ?t))). x = 0x06 \<or> x = 0x15) \<longrightarrow>
        (\<exists>t'. send_bitfile_content ?t = (Blocks, t') \<and>
           written (proto_sp (tx_p t')) =
             written (proto_sp (tx_p ?t)) @
             map (body_frame (replicate 600 7)) [0..<Suc (length (incoming (proto_sp (tx_p ?t))))])"
    by blast
  from n(2) have three: "n = 3"
    by simp
  have two_less: "(2::nat) < n"
    using three by simp
  have "\<exists>packet. bitfile_packet ?t 2 = Inr packet \<and>
          pkt_payload packet = py_slice (replicate 600 7) (2 * 256) ((2 + 1) * 256) \<and>
          length (pkt_payload packet) \<le> 256 \<and>
          length (pkt_block_number packet) = 2 \<and>
          big_endian_value (pkt_block_number packet) = (2 + 1) mod 65536 \<and>
          as_bytearray packet = Inr (body_frame (replicate 600 7) 2)"
    by (rule mp [OF packets [THEN spec, of 2] two_less])
  then obtain packet where "bitfile_packet ?t 2 = Inr packet"
    and "pkt_payload packet = py_slice (replicate 600 7) (2 * 256) ((2 + 1) * 256)"
    and "big_endian_value (pkt_block_number packet) = (2 + 1) mod 65536"
    by blast
  then have third: "\<exists>packet. bitfile_packet ?t 2 = Inr packet \<and>
      pkt_payload packet = replicate 88 7 \<and> big_endian_value (pkt_block_number packet) = 3"
    by (simp add: py_slice_def)
  have "length (incoming (proto_sp (tx_p ?t))) < n \<and>
      (\<forall>x\<in>set (incoming (proto_sp (tx_p ?t))). x = 0x06 \<or> x = 0x15)"
    using three by (simp add: Protocol_init_def)
  with blocked have "\<exists>t'. send_bitfile_content ?t = (Blocks, t') \<and>
           written (proto_sp (tx_p t')) =
             written (proto_sp (tx_p ?t)) @
             map (body_frame (replicate 600 7)) [0..<Suc (length (incoming (proto_sp (tx_p ?t))))]"
    by blast
  then have fourth: "\<exists>t'. send_bitfile_content ?t = (Blocks, t') \<and>
      written (proto_sp (tx_p t')) =
        [body_frame (replicate 600 7) 0, body_frame (replicate 600 7) 1]"
    by (simp add: Protocol_init_def upt_rec)
  from n(1) whole third fourth three show ?thesis
    by simp
qed

text \<open>
  The counterexample to claim C2 as stated: a file of \<open>2 ^ 24\<close> zero bytes (16 MiB). It
  needs 65536 packets, and the last one, built for the identifier 65536, carries the block
  id bytes \<open>00 00\<close>, whose value is 0.
\<close>

theorem block_id_wraps:
  "num_required_packets_int
     \<lparr>tx_p = Protocol_init \<lparr>written = [], incoming = []\<rparr>,
      tx_data = replicate 16777216 0, tx_addr_int = 0\<rparr> = Inr 65536 \<and>
   bitfile_packet
     \<lparr>tx_p = Protocol_init \<lparr>written = [], incoming = []\<rparr>,
      tx_data = replicate 16777216 0, tx_addr_int = 0\<rparr> 65535 =
     Inr \<lparr>pkt_block_number = [0, 0], pkt_start_of_header = [1],
          pkt_payload = replicate 256 0\<rparr> \<and>
   big_endian_value [0, 0 :: byte] = 0"
proof -
  let ?t = "\<lparr>tx_p = Protocol_init \<lparr>written = [], incoming = []\<rparr>,
      tx_data = replicate 16777216 (0 :: byte), tx_addr_int = 0\<rparr>"
  have count: "calc_num_required_packets (int (length (replicate 16777216 (0 :: byte)))) =
      Inr 65536"
    using calc_num_required_packets_exact [of 16777216] by simp
  then have one: "num_required_packets_int ?t = Inr 65536"
    by (simp add: num_required_packets_int_def)
  have "bitfile_packet ?t 65535 =
      Inr \<lparr>pkt_block_number = be_bytes 2 (int 65535 + 1), pkt_start_of_header = [0x01],
          pkt_payload = py_slice (replicate 16777216 0) (65535 * 256) ((65535 + 1) * 256)\<rparr>"
    using count by (rule bitfile_packet_eq) simp
  then have two: "bitfile_packet ?t 65535 =
     Inr \<lparr>pkt_block_number = [0, 0], pkt_start_of_header = [1],
          pkt_payload = replicate 256 0\<rparr>"
    by (simp add: be_bytes_2 py_slice_def)
  have "big_endian_value [0, 0 :: byte] = 0"
    by (simp add: big_endian_value_Cons big_endian_value_Nil)
  with one two show ?thesis
    by (simp only: simp_thms)
qed

end
